theory Spec2Isabelle
  imports Complex_Main "HOL-Library.Multiset"
begin

section \<open>Data model\<close>

text \<open>
  The types of \<^verbatim>\<open>@/types/scheduler\<close>, as the scheduling functions build and read them.
  Times are JavaScript numbers holding integers; they are modelled as \<open>int\<close>, the times of
  an input being integers that are doubles, and the sums and differences the program computes
  being rounded as the section on numbers describes.
  The optional \<^verbatim>\<open>priority\<close> is \<open>int option\<close>, \<open>None\<close> being \<^verbatim>\<open>undefined\<close>.
  The field \<^verbatim>\<open>id\<close> is written \<open>id'\<close>, since \<open>id\<close> is the identity function of HOL.
\<close>

record Process =
  id' :: string
  arrivalTime :: int
  burstTime :: int
  priority :: "int option"

text \<open>
  The object \<^verbatim>\<open>{ ...p, remainingTime: p.burstTime }\<close>: a process with one more field.
\<close>

record SimProcess = Process +
  remainingTime :: int

record ExecutionBlock =
  processId :: string
  startTime :: int
  endTime :: int

text \<open>
  A \<^verbatim>\<open>ProcessMetrics\<close> object carries the four fields of a process and three derived times.
\<close>

record ProcessMetrics = Process +
  completionTime :: int
  turnaroundTime :: int
  waitingTime :: int

text \<open>
  The two averages are quotients of JavaScript numbers. A quotient of an integer sum by a
  length is either a finite number, or \<^verbatim>\<open>NaN\<close> (zero by zero), or an infinity (non-zero by zero).
  The finite quotient is kept exact, as a rational; the double nearest to it is what
  JavaScript stores.
\<close>

datatype jsnum = NaN | PosInfinity | NegInfinity | Fin rat

record SchedulingResult =
  executionOrder :: "ExecutionBlock list"
  processMetrics :: "ProcessMetrics list"
  averageWaitingTime :: jsnum
  averageTurnaroundTime :: jsnum

definition js_div :: "int \<Rightarrow> nat \<Rightarrow> jsnum" where
  "js_div a n =
     (if n = 0 then (if a = 0 then NaN else if 0 < a then PosInfinity else NegInfinity)
      else Fin (of_int a / of_nat n))"

definition withRemaining :: "Process \<Rightarrow> SimProcess" where
  "withRemaining p =
     \<lparr>id' = id' p, arrivalTime = arrivalTime p, burstTime = burstTime p,
      priority = priority p, remainingTime = burstTime p\<rparr>"

section \<open>Numbers\<close>

text \<open>
  Every time of the program is a JavaScript number, a double, that holds an integer, and the
  program adds and subtracts such numbers. The sum or difference of two integers is an
  integer; \<^verbatim>\<open>+\<close> and \<^verbatim>\<open>-\<close> return the double nearest to it, the one with the even significand
  when two are equally near. An integer of magnitude up to \<open>2 ^ 53\<close> is a double. A larger one has
  more than 53 binary digits: \<open>js_double\<close> keeps the leading 53 and rounds on the \<open>k\<close> digits it
  drops. The exponent range is taken as unbounded: a result of magnitude \<open>2 ^ 1024\<close> or more,
  which JavaScript makes \<^verbatim>\<open>Infinity\<close>, is rounded like any other. Comparisons, \<^verbatim>\<open>Math.max\<close> and
  \<^verbatim>\<open>Math.min\<close> are exact.
\<close>

function bit_len :: "nat \<Rightarrow> nat" where
  "bit_len n = (if n = 0 then 0 else Suc (bit_len (n div 2)))"
  by pat_completeness auto
termination
  by (relation "measure (\<lambda>n. n)") auto

declare bit_len.simps [simp del]

definition js_double :: "int \<Rightarrow> int" where
  "js_double n =
     (if \<bar>n\<bar> \<le> 2 ^ 53 then n
      else let m = nat \<bar>n\<bar>;
               k = bit_len m - 53;
               q = m div 2 ^ k;
               r = m mod 2 ^ k;
               half = 2 ^ (k - 1);
               q' = (if r < half then q else if half < r then q + 1
                     else if even q then q else q + 1)
           in sgn n * int (q' * 2 ^ k))"

definition js_add :: "int \<Rightarrow> int \<Rightarrow> int" where
  "js_add a b = js_double (a + b)"

definition js_sub :: "int \<Rightarrow> int \<Rightarrow> int" where
  "js_sub a b = js_double (a - b)"

section \<open>Metrics aggregator\<close>

text \<open>
  The two sums are sums of doubles, added from the left. The quotient of a sum by the length
  is kept exact, as said above.
\<close>

definition calculateAverages :: "ExecutionBlock list \<Rightarrow> ProcessMetrics list \<Rightarrow> SchedulingResult" where
  "calculateAverages eo pm =
     \<lparr>executionOrder = eo,
      processMetrics = pm,
      averageWaitingTime = js_div (foldl (\<lambda>sum p. js_add sum (waitingTime p)) 0 pm) (length pm),
      averageTurnaroundTime = js_div (foldl (\<lambda>sum p. js_add sum (turnaroundTime p)) 0 pm) (length pm)\<rparr>"

section \<open>First come, first served\<close>

text \<open>
  \<^verbatim>\<open>[...processes].sort((a, b) => a.arrivalTime - b.arrivalTime)\<close> is a stable sort on the
  arrival time (ECMAScript 2019 requires \<^verbatim>\<open>Array.prototype.sort\<close> to be stable), so its result is
  the one of \<open>sort_key arrivalTime\<close>. The state threaded through \<^verbatim>\<open>forEach\<close> is the
  triple of \<^verbatim>\<open>executionOrder\<close>, \<^verbatim>\<open>processMetrics\<close> and \<^verbatim>\<open>currentTime\<close>; the
  local \<^verbatim>\<open>startTime\<close> and \<^verbatim>\<open>endTime\<close> are written \<open>start\<close> and \<open>finish\<close>, the field names being
  taken.
\<close>

definition fcfs_body ::
  "ExecutionBlock list \<times> ProcessMetrics list \<times> int \<Rightarrow> Process
     \<Rightarrow> ExecutionBlock list \<times> ProcessMetrics list \<times> int" where
  "fcfs_body st process =
     (case st of (blocks, metrics, currentTime) \<Rightarrow>
        let start = max currentTime (arrivalTime process);
            finish = js_add start (burstTime process)
        in (blocks @ [\<lparr>processId = id' process, startTime = start, endTime = finish\<rparr>],
            metrics @
              [\<lparr>id' = id' process, arrivalTime = arrivalTime process, burstTime = burstTime process,
                priority = priority process, completionTime = finish,
                turnaroundTime = js_sub finish (arrivalTime process),
                waitingTime = js_sub start (arrivalTime process)\<rparr>],
            finish))"

definition scheduleFCFS :: "Process list \<Rightarrow> SchedulingResult" where
  "scheduleFCFS processes =
     (let sortedProcesses = sort_key arrivalTime processes
      in case foldl fcfs_body ([], [], 0) sortedProcesses of
           (blocks, metrics, currentTime) \<Rightarrow> calculateAverages blocks metrics)"

section \<open>Shortest job first\<close>

text \<open>
  The loop state of \<^verbatim>\<open>scheduleSJF\<close> and \<^verbatim>\<open>schedulePriority\<close>: the two output arrays, the set
  of completed ids and the clock.
\<close>

record sel_state =
  s_executionOrder :: "ExecutionBlock list"
  s_processMetrics :: "ProcessMetrics list"
  s_completedProcesses :: "string set"
  s_currentTime :: int

definition sel_init :: sel_state where
  "sel_init = \<lparr>s_executionOrder = [], s_processMetrics = [], s_completedProcesses = {},
               s_currentTime = 0\<rparr>"

definition availableProcesses :: "SimProcess list \<Rightarrow> sel_state \<Rightarrow> SimProcess list" where
  "availableProcesses remainingProcesses st =
     filter (\<lambda>p. arrivalTime p \<le> s_currentTime st \<and> id' p \<notin> s_completedProcesses st)
       remainingProcesses"

text \<open>
  \<^verbatim>\<open>reduce\<close> without an initial value starts from the first element; the loop calls it on a
  non-empty array only.
\<close>

definition shortestJob :: "SimProcess \<Rightarrow> SimProcess list \<Rightarrow> SimProcess" where
  "shortestJob first rest =
     foldl (\<lambda>min current. if burstTime current < burstTime min then current else min) first rest"

text \<open>
  The rest of the loop body, once a process is selected; \<^verbatim>\<open>schedulePriority\<close> has the same
  statements.
\<close>

definition run_to_completion :: "SimProcess \<Rightarrow> sel_state \<Rightarrow> sel_state" where
  "run_to_completion job st =
     (let start = s_currentTime st;
          finish = js_add start (burstTime job)
      in \<lparr>s_executionOrder = s_executionOrder st @
             [\<lparr>processId = id' job, startTime = start, endTime = finish\<rparr>],
          s_processMetrics = s_processMetrics st @
             [\<lparr>id' = id' job, arrivalTime = arrivalTime job, burstTime = burstTime job,
               priority = priority job, completionTime = finish,
               turnaroundTime = js_sub finish (arrivalTime job),
               waitingTime = js_sub start (arrivalTime job)\<rparr>],
          s_completedProcesses = insert (id' job) (s_completedProcesses st),
          s_currentTime = finish\<rparr>)"

definition sjf_body :: "SimProcess list \<Rightarrow> sel_state \<Rightarrow> sel_state" where
  "sjf_body remainingProcesses st =
     (case availableProcesses remainingProcesses st of
        [] \<Rightarrow> st\<lparr>s_currentTime := js_add (s_currentTime st) 1\<rparr>
      | first # rest \<Rightarrow> run_to_completion (shortestJob first rest) st)"

partial_function (option) sjf_loop :: "nat \<Rightarrow> SimProcess list \<Rightarrow> sel_state \<Rightarrow> sel_state option" where
  "sjf_loop n remainingProcesses st =
     (if card (s_completedProcesses st) < n
      then sjf_loop n remainingProcesses (sjf_body remainingProcesses st)
      else Some st)"

declare sjf_loop.simps [code]

definition scheduleSJF :: "Process list \<Rightarrow> SchedulingResult option" where
  "scheduleSJF processes =
     (let remainingProcesses = map withRemaining processes
      in case sjf_loop (length processes) remainingProcesses sel_init of
           None \<Rightarrow> None
         | Some st \<Rightarrow> Some (calculateAverages (s_executionOrder st) (s_processMetrics st)))"

section \<open>Priority, non-preemptive\<close>

text \<open>
  \<^verbatim>\<open>p.priority ?? Infinity\<close> is a number or \<^verbatim>\<open>Infinity\<close>; \<open>less_num\<close> is \<^verbatim>\<open><\<close> on such values.
\<close>

datatype num_or_infinity = Number int | Infinity

fun orInfinity :: "int option \<Rightarrow> num_or_infinity" where
  "orInfinity None = Infinity"
| "orInfinity (Some x) = Number x"

fun less_num :: "num_or_infinity \<Rightarrow> num_or_infinity \<Rightarrow> bool" where
  "less_num (Number x) (Number y) = (x < y)"
| "less_num (Number x) Infinity = True"
| "less_num Infinity y = False"

definition highestPriority :: "SimProcess \<Rightarrow> SimProcess list \<Rightarrow> SimProcess" where
  "highestPriority first rest =
     foldl (\<lambda>min current.
              let minPriority = orInfinity (priority min);
                  currentPriority = orInfinity (priority current)
              in if less_num currentPriority minPriority then current else min) first rest"

definition priority_body :: "SimProcess list \<Rightarrow> sel_state \<Rightarrow> sel_state" where
  "priority_body remainingProcesses st =
     (case availableProcesses remainingProcesses st of
        [] \<Rightarrow> st\<lparr>s_currentTime := js_add (s_currentTime st) 1\<rparr>
      | first # rest \<Rightarrow> run_to_completion (highestPriority first rest) st)"

partial_function (option) priority_loop ::
  "nat \<Rightarrow> SimProcess list \<Rightarrow> sel_state \<Rightarrow> sel_state option" where
  "priority_loop n remainingProcesses st =
     (if card (s_completedProcesses st) < n
      then priority_loop n remainingProcesses (priority_body remainingProcesses st)
      else Some st)"

declare priority_loop.simps [code]

definition schedulePriority :: "Process list \<Rightarrow> SchedulingResult option" where
  "schedulePriority processes =
     (let remainingProcesses = map withRemaining processes
      in case priority_loop (length processes) remainingProcesses sel_init of
           None \<Rightarrow> None
         | Some st \<Rightarrow> Some (calculateAverages (s_executionOrder st) (s_processMetrics st)))"

section \<open>Round robin\<close>

text \<open>
  The loop state of \<^verbatim>\<open>scheduleRoundRobin\<close>. The objects of \<^verbatim>\<open>readyQueue\<close> are those of
  \<^verbatim>\<open>processQueue\<close>, and \<^verbatim>\<open>remainingTime\<close> is updated in place; an object is read through
  \<^verbatim>\<open>processQueue\<close> only before it is first enqueued, and it is in \<^verbatim>\<open>readyQueue\<close> at most once,
  so the queue is modelled as a list of values.
\<close>

record rr_state =
  r_executionOrder :: "ExecutionBlock list"
  r_processMetrics :: "ProcessMetrics list"
  r_readyQueue :: "SimProcess list"
  r_currentTime :: int
  r_processIndex :: nat

definition rr_init :: rr_state where
  "rr_init = \<lparr>r_executionOrder = [], r_processMetrics = [], r_readyQueue = [],
              r_currentTime = 0, r_processIndex = 0\<rparr>"

text \<open>The inner loop ``add newly arrived processes to ready queue''.\<close>

function enqueue_arrived :: "SimProcess list \<Rightarrow> rr_state \<Rightarrow> rr_state" where
  "enqueue_arrived processQueue st =
     (if r_processIndex st < length processQueue \<and>
         arrivalTime (processQueue ! r_processIndex st) \<le> r_currentTime st
      then enqueue_arrived processQueue
             (st\<lparr>r_readyQueue := r_readyQueue st @ [processQueue ! r_processIndex st],
                 r_processIndex := r_processIndex st + 1\<rparr>)
      else st)"
  by pat_completeness auto

termination
  by (relation "measure (\<lambda>(processQueue, st). length processQueue - r_processIndex st)") auto

declare enqueue_arrived.simps [simp del]

definition rr_body :: "SimProcess list \<Rightarrow> int \<Rightarrow> rr_state \<Rightarrow> rr_state" where
  "rr_body processQueue timeQuantum st0 =
     (let st1 = enqueue_arrived processQueue st0
      in case r_readyQueue st1 of
           [] \<Rightarrow> st1\<lparr>r_currentTime := js_add (r_currentTime st1) 1\<rparr>
         | currentProcess # rest \<Rightarrow>
             let executionTime = min timeQuantum (remainingTime currentProcess);
                 start = r_currentTime st1;
                 finish = js_add start executionTime;
                 st2 = st1\<lparr>r_executionOrder := r_executionOrder st1 @
                             [\<lparr>processId = id' currentProcess, startTime = start, endTime = finish\<rparr>],
                           r_readyQueue := rest,
                           r_currentTime := finish\<rparr>;
                 ran = currentProcess
                   \<lparr>remainingTime := js_sub (remainingTime currentProcess) executionTime\<rparr>;
                 st3 = enqueue_arrived processQueue st2
             in if 0 < remainingTime ran
                then st3\<lparr>r_readyQueue := r_readyQueue st3 @ [ran]\<rparr>
                else st3\<lparr>r_processMetrics := r_processMetrics st3 @
                       [\<lparr>id' = id' ran, arrivalTime = arrivalTime ran, burstTime = burstTime ran,
                         priority = priority ran, completionTime = finish,
                         turnaroundTime = js_sub finish (arrivalTime ran),
                         waitingTime = js_sub (js_sub finish (arrivalTime ran)) (burstTime ran)\<rparr>]\<rparr>)"

definition rr_cond :: "SimProcess list \<Rightarrow> rr_state \<Rightarrow> bool" where
  "rr_cond processQueue st \<longleftrightarrow>
     r_processIndex st < length processQueue \<or> 0 < length (r_readyQueue st)"

partial_function (option) rr_loop :: "SimProcess list \<Rightarrow> int \<Rightarrow> rr_state \<Rightarrow> rr_state option" where
  "rr_loop processQueue timeQuantum st =
     (if rr_cond processQueue st
      then rr_loop processQueue timeQuantum (rr_body processQueue timeQuantum st)
      else Some st)"

declare rr_loop.simps [code]

definition scheduleRoundRobin :: "Process list \<Rightarrow> int \<Rightarrow> SchedulingResult option" where
  "scheduleRoundRobin processes timeQuantum =
     (let processQueue = map withRemaining (sort_key arrivalTime processes)
      in case rr_loop processQueue timeQuantum rr_init of
           None \<Rightarrow> None
         | Some st \<Rightarrow> Some (calculateAverages (r_executionOrder st) (r_processMetrics st)))"

section \<open>The caller\<close>

text \<open>
  \<^verbatim>\<open>runScheduler\<close> of the component \<^verbatim>\<open>CPUScheduler\<close>, without its rendering: an early return
  after a toast is \<open>Toast\<close> with the toast's title, and \<^verbatim>\<open>setResult(schedulingResult)\<close> is
  \<open>SetResult\<close>. The result is \<open>None\<close> when the scheduling function does not return.
  \<^verbatim>\<open>scheduleSRTF\<close> and \<^verbatim>\<open>schedulePriorityPreemptive\<close> are imported from the module of the other
  four functions, which does not define them; they are parameters here. The call
  \<^verbatim>\<open>schedulePriority(processes, reversePriority)\<close> passes a second argument to a function of one
  parameter, which JavaScript drops.
\<close>

datatype SchedulingAlgorithm = FCFS | SJF | SRTF | Priority | PriorityP | RoundRobin

datatype outcome = Toast string | SetResult SchedulingResult

definition runScheduler ::
  "(Process list \<Rightarrow> SchedulingResult option) \<Rightarrow> (Process list \<Rightarrow> bool \<Rightarrow> SchedulingResult option)
     \<Rightarrow> SchedulingAlgorithm \<Rightarrow> Process list \<Rightarrow> int \<Rightarrow> bool \<Rightarrow> outcome option" where
  "runScheduler scheduleSRTF schedulePriorityPreemptive algorithm processes timeQuantum
       reversePriority =
     (if length processes = 0 then Some (Toast ''No Processes'')
      else case algorithm of
        FCFS \<Rightarrow> Some (SetResult (scheduleFCFS processes))
      | SJF \<Rightarrow> map_option SetResult (scheduleSJF processes)
      | SRTF \<Rightarrow> map_option SetResult (scheduleSRTF processes)
      | Priority \<Rightarrow>
          if \<exists>p \<in> set processes. priority p = None then Some (Toast ''Missing Priority'')
          else map_option SetResult (schedulePriority processes)
      | PriorityP \<Rightarrow>
          if \<exists>p \<in> set processes. priority p = None then Some (Toast ''Missing Priority'')
          else map_option SetResult (schedulePriorityPreemptive processes reversePriority)
      | RoundRobin \<Rightarrow> map_option SetResult (scheduleRoundRobin processes timeQuantum))"

section \<open>The example of the component's initial state\<close>

definition example3 :: "Process list" where
  "example3 =
     [\<lparr>id' = ''P1'', arrivalTime = 0, burstTime = 4, priority = Some 2\<rparr>,
      \<lparr>id' = ''P2'', arrivalTime = 1, burstTime = 3, priority = Some 1\<rparr>,
      \<lparr>id' = ''P3'', arrivalTime = 2, burstTime = 1, priority = Some 3\<rparr>]"

section \<open>What the specification asks of a result\<close>

text \<open>
  The specification's description of first come, first served, as a recursion over the
  sorted list: each process starts at the later of the clock and its arrival, runs for its
  burst time, and the clock advances to its end. The times of the specification are integers.
\<close>

fun fcfs_timeline :: "int \<Rightarrow> Process list \<Rightarrow> ExecutionBlock list" where
  "fcfs_timeline clock [] = []"
| "fcfs_timeline clock (p # ps) =
     \<lparr>processId = id' p, startTime = max clock (arrivalTime p),
      endTime = max clock (arrivalTime p) + burstTime p\<rparr>
     # fcfs_timeline (max clock (arrivalTime p) + burstTime p) ps"

fun fcfs_metrics :: "int \<Rightarrow> Process list \<Rightarrow> ProcessMetrics list" where
  "fcfs_metrics clock [] = []"
| "fcfs_metrics clock (p # ps) =
     \<lparr>id' = id' p, arrivalTime = arrivalTime p, burstTime = burstTime p, priority = priority p,
      completionTime = max clock (arrivalTime p) + burstTime p,
      turnaroundTime = max clock (arrivalTime p) + burstTime p - arrivalTime p,
      waitingTime = max clock (arrivalTime p) - arrivalTime p\<rparr>
     # fcfs_metrics (max clock (arrivalTime p) + burstTime p) ps"

text \<open>The arithmetic mean of the specification, undefined (\<open>NaN\<close>) on no values.\<close>

definition arithmetic_mean :: "int list \<Rightarrow> jsnum" where
  "arithmetic_mean xs = (if xs = [] then NaN else Fin (of_int (sum_list xs) / of_nat (length xs)))"

definition averages_are_means :: "SchedulingResult \<Rightarrow> bool" where
  "averages_are_means r \<longleftrightarrow>
     averageWaitingTime r = arithmetic_mean (map waitingTime (processMetrics r)) \<and>
     averageTurnaroundTime r = arithmetic_mean (map turnaroundTime (processMetrics r))"

definition empty_result :: SchedulingResult where
  "empty_result = \<lparr>executionOrder = [], processMetrics = [], averageWaitingTime = NaN,
                    averageTurnaroundTime = NaN\<rparr>"

text \<open>
  The CPU time a timeline gives to a process id: the sum of the lengths of its blocks.
\<close>

definition cpu_time :: "ExecutionBlock list \<Rightarrow> string \<Rightarrow> int" where
  "cpu_time eo i = sum_list (map (\<lambda>b. endTime b - startTime b) (filter (\<lambda>b. processId b = i) eo))"

text \<open>Two half-open intervals overlap when each starts before the other ends.\<close>

definition overlap :: "ExecutionBlock \<Rightarrow> ExecutionBlock \<Rightarrow> bool" where
  "overlap a b \<longleftrightarrow> startTime a < endTime b \<and> startTime b < endTime a"

definition non_overlapping :: "ExecutionBlock list \<Rightarrow> bool" where
  "non_overlapping eo \<longleftrightarrow>
     (\<forall>i < length eo. \<forall>j < length eo. i \<noteq> j \<longrightarrow> \<not> overlap (eo ! i) (eo ! j))"

text \<open>The caller preconditions of the specification, but the one on the quantum.\<close>

definition preconditions :: "Process list \<Rightarrow> bool" where
  "preconditions ps \<longleftrightarrow>
     ps \<noteq> [] \<and> distinct (map id' ps) \<and> (\<forall>p \<in> set ps. 0 \<le> arrivalTime p \<and> 0 < burstTime p)"

text \<open>
  The processes for which no time of a run leaves the integers that are doubles: the latest
  arrival, plus all the burst times, is at most \<open>2 ^ 53\<close>.
\<close>

definition within_safe_range :: "Process list \<Rightarrow> bool" where
  "within_safe_range ps \<longleftrightarrow>
     (\<forall>p \<in> set ps. arrivalTime p + sum_list (map burstTime ps) \<le> 2 ^ 53)"

definition timeline_conserved :: "Process list \<Rightarrow> SchedulingResult \<Rightarrow> bool" where
  "timeline_conserved ps r \<longleftrightarrow>
     (\<forall>p \<in> set ps. cpu_time (executionOrder r) (id' p) = burstTime p) \<and>
     non_overlapping (executionOrder r) \<and>
     sorted (map startTime (executionOrder r))"

definition metrics_ok :: "ProcessMetrics \<Rightarrow> bool" where
  "metrics_ok m \<longleftrightarrow>
     0 \<le> waitingTime m \<and>
     burstTime m \<le> turnaroundTime m \<and>
     arrivalTime m + burstTime m \<le> completionTime m \<and>
     turnaroundTime m = completionTime m - arrivalTime m \<and>
     waitingTime m = turnaroundTime m - burstTime m"

text \<open>
  The metrics of a result: one entry for each process, with the id, arrival time, burst time
  and priority of that process (\<open>Process.truncate\<close> is the entry without its three times), the
  bounds of \<open>metrics_ok\<close>, and as completion time the end of a block of that process.
\<close>

definition completes_at :: "ExecutionBlock list \<Rightarrow> ProcessMetrics \<Rightarrow> bool" where
  "completes_at eo m \<longleftrightarrow>
     (\<exists>b \<in> set eo. processId b = id' m \<and> endTime b = completionTime m)"

definition metrics_sound :: "Process list \<Rightarrow> SchedulingResult \<Rightarrow> bool" where
  "metrics_sound ps r \<longleftrightarrow>
     mset (map Process.truncate (processMetrics r)) = mset ps \<and>
     (\<forall>m \<in> set (processMetrics r). metrics_ok m \<and> completes_at (executionOrder r) m)"

text \<open>
  The metrics on which the sums of \<^verbatim>\<open>calculateAverages\<close> are exact: no negative time, and
  sums of at most \<open>2 ^ 53\<close>.
\<close>

definition sums_within_safe_range :: "ProcessMetrics list \<Rightarrow> bool" where
  "sums_within_safe_range pm \<longleftrightarrow>
     (\<forall>m \<in> set pm. 0 \<le> waitingTime m \<and> 0 \<le> turnaroundTime m) \<and>
     sum_list (map waitingTime pm) \<le> 2 ^ 53 \<and>
     sum_list (map turnaroundTime pm) \<le> 2 ^ 53"

section \<open>Invariants and measures of the loops\<close>

text \<open>
  The fold of \<^verbatim>\<open>scheduleFCFS\<close> as a recursion over the sorted list, with the sums and
  differences of the program.
\<close>

fun fcfs_timeline_double :: "int \<Rightarrow> Process list \<Rightarrow> ExecutionBlock list" where
  "fcfs_timeline_double clock [] = []"
| "fcfs_timeline_double clock (p # ps) =
     \<lparr>processId = id' p, startTime = max clock (arrivalTime p),
      endTime = js_add (max clock (arrivalTime p)) (burstTime p)\<rparr>
     # fcfs_timeline_double (js_add (max clock (arrivalTime p)) (burstTime p)) ps"

fun fcfs_metrics_double :: "int \<Rightarrow> Process list \<Rightarrow> ProcessMetrics list" where
  "fcfs_metrics_double clock [] = []"
| "fcfs_metrics_double clock (p # ps) =
     \<lparr>id' = id' p, arrivalTime = arrivalTime p, burstTime = burstTime p, priority = priority p,
      completionTime = js_add (max clock (arrivalTime p)) (burstTime p),
      turnaroundTime = js_sub (js_add (max clock (arrivalTime p)) (burstTime p)) (arrivalTime p),
      waitingTime = js_sub (max clock (arrivalTime p)) (arrivalTime p)\<rparr>
     # fcfs_metrics_double (js_add (max clock (arrivalTime p)) (burstTime p)) ps"

text \<open>
  A timeline whose blocks follow one another and end by the time \<open>t\<close>: the invariant all
  four loops keep for \<open>executionOrder\<close> and their clock.
\<close>

definition timeline_upto :: "int \<Rightarrow> ExecutionBlock list \<Rightarrow> bool" where
  "timeline_upto t eo \<longleftrightarrow>
     sorted_wrt (\<lambda>a b. endTime a \<le> startTime b) eo \<and>
     (\<forall>b \<in> set eo. startTime b \<le> endTime b \<and> endTime b \<le> t)"

text \<open>
  The invariant of the loops of \<^verbatim>\<open>scheduleSJF\<close> and \<^verbatim>\<open>schedulePriority\<close>: the completed ids
  are ids of the input and those of the metrics, which has one entry for each, the entry of a
  process of the input, completed at the end of one of its blocks; the timeline ends by the
  clock; the blocks of a completed process add up to its burst time. And the quantity that
  decreases with every iteration: the number of processes left, plus the idle ticks left
  before the last arrival.
\<close>

definition sel_inv :: "Process list \<Rightarrow> sel_state \<Rightarrow> bool" where
  "sel_inv ps s \<longleftrightarrow>
     s_completedProcesses s \<subseteq> id' ` set ps \<and>
     id' ` set (s_processMetrics s) = s_completedProcesses s \<and>
     distinct (map id' (s_processMetrics s)) \<and>
     (\<forall>m \<in> set (s_processMetrics s).
        Process.truncate m \<in> set ps \<and> completes_at (s_executionOrder s) m) \<and>
     timeline_upto (s_currentTime s) (s_executionOrder s) \<and>
     (\<forall>m \<in> set (s_processMetrics s). metrics_ok m) \<and>
     (\<forall>p \<in> set ps. cpu_time (s_executionOrder s) (id' p) =
        (if id' p \<in> s_completedProcesses s then burstTime p else 0))"

text \<open>
  The clock, plus the burst times of the processes not yet completed, stays within \<open>2 ^ 53\<close>.
\<close>

definition sel_safe :: "Process list \<Rightarrow> sel_state \<Rightarrow> bool" where
  "sel_safe ps s \<longleftrightarrow>
     0 \<le> s_currentTime s \<and>
     s_currentTime s +
       sum_list (map burstTime (filter (\<lambda>p. id' p \<notin> s_completedProcesses s) ps)) \<le> 2 ^ 53"

definition sel_measure :: "Process list \<Rightarrow> sel_state \<Rightarrow> nat" where
  "sel_measure ps s =
     (length ps - card (s_completedProcesses s)) +
     nat (Max (arrivalTime ` set ps) - s_currentTime s)"

text \<open>
  The processes that \<^verbatim>\<open>scheduleRoundRobin\<close> still has to finish: the ready queue, then the
  part of \<^verbatim>\<open>processQueue\<close> from \<^verbatim>\<open>processIndex\<close> on. The invariant of the loop, the CPU time
  accounted to each process, and the quantity that decreases with every iteration: the
  remaining time of all the pending processes, plus the idle ticks left before the last arrival.
\<close>

definition pending :: "SimProcess list \<Rightarrow> rr_state \<Rightarrow> SimProcess list" where
  "pending pq s = r_readyQueue s @ drop (r_processIndex s) pq"

definition rr_inv :: "SimProcess list \<Rightarrow> rr_state \<Rightarrow> bool" where
  "rr_inv pq s \<longleftrightarrow>
     r_processIndex s \<le> length pq \<and>
     (\<forall>q \<in> set (pending pq s). 0 < remainingTime q) \<and>
     (\<forall>q \<in> set (r_readyQueue s).
        arrivalTime q + (burstTime q - remainingTime q) \<le> r_currentTime s) \<and>
     timeline_upto (r_currentTime s) (r_executionOrder s) \<and>
     (\<forall>m \<in> set (r_processMetrics s). metrics_ok m \<and> completes_at (r_executionOrder s) m) \<and>
     mset (map Process.truncate (pending pq s)) + mset (map Process.truncate (r_processMetrics s))
       = mset (map Process.truncate pq)"

definition rr_cpu :: "SimProcess list \<Rightarrow> rr_state \<Rightarrow> bool" where
  "rr_cpu pq s \<longleftrightarrow>
     (\<forall>q \<in> set (pending pq s).
        cpu_time (r_executionOrder s) (id' q) = burstTime q - remainingTime q) \<and>
     (\<forall>m \<in> set (r_processMetrics s). cpu_time (r_executionOrder s) (id' m) = burstTime m)"

text \<open>
  The clock, plus the remaining time of the pending processes, stays within \<open>2 ^ 53\<close>.
\<close>

definition rr_safe :: "SimProcess list \<Rightarrow> rr_state \<Rightarrow> bool" where
  "rr_safe pq s \<longleftrightarrow>
     0 \<le> r_currentTime s \<and>
     r_currentTime s + sum_list (map remainingTime (pending pq s)) \<le> 2 ^ 53"

definition rr_measure :: "SimProcess list \<Rightarrow> rr_state \<Rightarrow> nat" where
  "rr_measure pq s =
     nat (sum_list (map remainingTime (pending pq s))) +
     nat (Max (arrivalTime ` set pq) - r_currentTime s)"

text \<open>The processes of the queue from index \<open>i\<close> on that have arrived by the time \<open>t\<close>.\<close>

definition arrived :: "SimProcess list \<Rightarrow> nat \<Rightarrow> int \<Rightarrow> SimProcess list" where
  "arrived pq i t = takeWhile (\<lambda>p. arrivalTime p \<le> t) (drop i pq)"

section \<open>Further inputs and states\<close>

text \<open>Two processes with the same id.\<close>

definition duplicate_ids :: "Process list" where
  "duplicate_ids =
     [\<lparr>id' = ''P1'', arrivalTime = 0, burstTime = 4, priority = Some 2\<rparr>,
      \<lparr>id' = ''P1'', arrivalTime = 1, burstTime = 3, priority = Some 1\<rparr>]"

text \<open>
  The state of shortest job first on the example after its first iteration, at time 4 with P1
  completed; and a process that arrives at time 1.
\<close>

definition example3_at_4 :: sel_state where
  "example3_at_4 =
     \<lparr>s_executionOrder = [\<lparr>processId = ''P1'', startTime = 0, endTime = 4\<rparr>],
      s_processMetrics =
        [\<lparr>id' = ''P1'', arrivalTime = 0, burstTime = 4, priority = Some 2,
          completionTime = 4, turnaroundTime = 4, waitingTime = 0\<rparr>],
      s_completedProcesses = {''P1''},
      s_currentTime = 4\<rparr>"

definition late_arrival :: "Process list" where
  "late_arrival = [\<lparr>id' = ''P1'', arrivalTime = 1, burstTime = 2, priority = None\<rparr>]"

text \<open>
  Inputs that reach \<open>2 ^ 53\<close>: a burst time of \<open>2 ^ 53\<close> followed by a burst time of 1, or of 3;
  an arrival at \<open>2 ^ 53\<close>; the first with two more processes that arrive one tick before
  \<open>2 ^ 53\<close>; and a burst time of \<open>2 ^ 53\<close> followed by an arrival two ticks after it.
\<close>

definition long_then_burst_3 :: "Process list" where
  "long_then_burst_3 =
     [\<lparr>id' = ''P1'', arrivalTime = 0, burstTime = 9007199254740992, priority = None\<rparr>,
      \<lparr>id' = ''P2'', arrivalTime = 1, burstTime = 3, priority = None\<rparr>]"

definition long_then_short :: "Process list" where
  "long_then_short =
     [\<lparr>id' = ''P1'', arrivalTime = 0, burstTime = 9007199254740992, priority = None\<rparr>,
      \<lparr>id' = ''P2'', arrivalTime = 0, burstTime = 1, priority = None\<rparr>]"

definition arrival_at_2_53 :: "Process list" where
  "arrival_at_2_53 =
     [\<lparr>id' = ''P1'', arrivalTime = 9007199254740992, burstTime = 1, priority = None\<rparr>]"

definition long_then_three :: "Process list" where
  "long_then_three =
     [\<lparr>id' = ''P1'', arrivalTime = 0, burstTime = 9007199254740992, priority = None\<rparr>,
      \<lparr>id' = ''P2'', arrivalTime = 0, burstTime = 1, priority = None\<rparr>,
      \<lparr>id' = ''P3'', arrivalTime = 9007199254740991, burstTime = 1, priority = None\<rparr>,
      \<lparr>id' = ''P4'', arrivalTime = 9007199254740991, burstTime = 1, priority = None\<rparr>]"

definition long_then_late :: "Process list" where
  "long_then_late =
     [\<lparr>id' = ''P1'', arrivalTime = 0, burstTime = 9007199254740992, priority = None\<rparr>,
      \<lparr>id' = ''P2'', arrivalTime = 9007199254740994, burstTime = 1, priority = None\<rparr>]"

text \<open>
  The states of shortest job first and of round robin (with quantum \<open>2 ^ 53\<close>) on the last
  input after their first iteration: P1 has run and completed, and P2 has not arrived.
\<close>

definition long_then_late_waiting :: sel_state where
  "long_then_late_waiting =
     \<lparr>s_executionOrder = [\<lparr>processId = ''P1'', startTime = 0, endTime = 9007199254740992\<rparr>],
      s_processMetrics =
        [\<lparr>id' = ''P1'', arrivalTime = 0, burstTime = 9007199254740992, priority = None,
          completionTime = 9007199254740992, turnaroundTime = 9007199254740992,
          waitingTime = 0\<rparr>],
      s_completedProcesses = {''P1''},
      s_currentTime = 9007199254740992\<rparr>"

definition long_then_late_idle :: rr_state where
  "long_then_late_idle =
     \<lparr>r_executionOrder = [\<lparr>processId = ''P1'', startTime = 0, endTime = 9007199254740992\<rparr>],
      r_processMetrics =
        [\<lparr>id' = ''P1'', arrivalTime = 0, burstTime = 9007199254740992, priority = None,
          completionTime = 9007199254740992, turnaroundTime = 9007199254740992,
          waitingTime = 0\<rparr>],
      r_readyQueue = [],
      r_currentTime = 9007199254740992,
      r_processIndex = 1\<rparr>"

section \<open>Shortest remaining time first\<close>

text \<open>
  Modelled from the spec: \<^verbatim>\<open>scheduleSRTF\<close>, which \<^verbatim>\<open>runScheduler\<close> imports and calls, is not defined
  in the module of the scheduling functions. The model follows section 4.4 of the
  specification, tick by tick: the eligible processes are those that have arrived and have
  remaining time (the eligibility and idle rule of shortest job first, on \<open>remainingTime\<close>);
  with none, the clock gains one tick; otherwise the eligible process of least remaining time,
  first in input order, is compared with the running process, which is preempted only when
  the other has strictly less remaining time: its slice then ends at the clock and the new
  slice begins at the same tick; on a tie the running process goes on. The process chosen
  runs for one tick; when its remaining time reaches zero its slice ends and its metrics are
  emitted. The times of the specification are integers, and the model adds and subtracts them
  exactly. Processes are referred to by their index in the per-run array, and the running
  process is kept with the start of its current slice.
\<close>

record srtf_state =
  p_executionOrder :: "ExecutionBlock list"
  p_processMetrics :: "ProcessMetrics list"
  p_processes :: "SimProcess list"
  p_currentTime :: int
  p_running :: "(nat \<times> int) option"

definition srtf_init :: "Process list \<Rightarrow> srtf_state" where
  "srtf_init processes =
     \<lparr>p_executionOrder = [], p_processMetrics = [], p_processes = map withRemaining processes,
      p_currentTime = 0, p_running = None\<rparr>"

definition eligible :: "srtf_state \<Rightarrow> nat list" where
  "eligible st =
     filter (\<lambda>i. arrivalTime (p_processes st ! i) \<le> p_currentTime st \<and>
                  0 < remainingTime (p_processes st ! i))
       [0 ..< length (p_processes st)]"

definition shortestRemaining :: "SimProcess list \<Rightarrow> nat \<Rightarrow> nat list \<Rightarrow> nat" where
  "shortestRemaining ps first rest =
     foldl (\<lambda>m c. if remainingTime (ps ! c) < remainingTime (ps ! m) then c else m) first rest"

text \<open>
  Who runs in this tick, and since when: \<open>best\<close> is the eligible process of least remaining
  time. \<open>preempted\<close> is the block that a preemption closes.
\<close>

definition srtf_choice :: "srtf_state \<Rightarrow> nat \<Rightarrow> nat \<times> int" where
  "srtf_choice st best =
     (case p_running st of
        None \<Rightarrow> (best, p_currentTime st)
      | Some (r, since) \<Rightarrow>
          if remainingTime (p_processes st ! best) < remainingTime (p_processes st ! r)
          then (best, p_currentTime st)
          else (r, since))"

definition preempted :: "srtf_state \<Rightarrow> nat \<Rightarrow> ExecutionBlock list" where
  "preempted st best =
     (case p_running st of
        None \<Rightarrow> []
      | Some (r, since) \<Rightarrow>
          if remainingTime (p_processes st ! best) < remainingTime (p_processes st ! r)
          then [\<lparr>processId = id' (p_processes st ! r), startTime = since,
                 endTime = p_currentTime st\<rparr>]
          else [])"

definition srtf_tick :: "srtf_state \<Rightarrow> nat \<Rightarrow> srtf_state" where
  "srtf_tick st best =
     (case srtf_choice st best of (cur, since) \<Rightarrow>
        let blocks = p_executionOrder st @ preempted st best;
            ran = (p_processes st ! cur)\<lparr>remainingTime := remainingTime (p_processes st ! cur) - 1\<rparr>;
            now = p_currentTime st + 1
        in if remainingTime ran \<le> 0
           then \<lparr>p_executionOrder = blocks @
                    [\<lparr>processId = id' ran, startTime = since, endTime = now\<rparr>],
                 p_processMetrics = p_processMetrics st @
                    [\<lparr>id' = id' ran, arrivalTime = arrivalTime ran, burstTime = burstTime ran,
                      priority = priority ran, completionTime = now,
                      turnaroundTime = now - arrivalTime ran,
                      waitingTime = now - arrivalTime ran - burstTime ran\<rparr>],
                 p_processes = (p_processes st)[cur := ran],
                 p_currentTime = now,
                 p_running = None\<rparr>
           else \<lparr>p_executionOrder = blocks,
                 p_processMetrics = p_processMetrics st,
                 p_processes = (p_processes st)[cur := ran],
                 p_currentTime = now,
                 p_running = Some (cur, since)\<rparr>)"

definition srtf_body :: "srtf_state \<Rightarrow> srtf_state" where
  "srtf_body st =
     (case eligible st of
        [] \<Rightarrow> st\<lparr>p_currentTime := p_currentTime st + 1\<rparr>
      | first # rest \<Rightarrow> srtf_tick st (shortestRemaining (p_processes st) first rest))"

partial_function (option) srtf_loop :: "srtf_state \<Rightarrow> srtf_state option" where
  "srtf_loop st =
     (if \<exists>p \<in> set (p_processes st). 0 < remainingTime p
      then srtf_loop (srtf_body st)
      else Some st)"

declare srtf_loop.simps [code]

definition scheduleSRTF :: "Process list \<Rightarrow> SchedulingResult option" where
  "scheduleSRTF processes =
     (case srtf_loop (srtf_init processes) of
        None \<Rightarrow> None
      | Some st \<Rightarrow> Some (calculateAverages (p_executionOrder st) (p_processMetrics st)))"

text \<open>
  What holds of the running process at every tick: it has arrived and has remaining time, and
  no process that arrived before this tick and has remaining time has less of it.
\<close>

definition srtf_inv :: "srtf_state \<Rightarrow> bool" where
  "srtf_inv st \<longleftrightarrow>
     (case p_running st of
        None \<Rightarrow> True
      | Some (r, since) \<Rightarrow>
          r < length (p_processes st) \<and>
          arrivalTime (p_processes st ! r) \<le> p_currentTime st \<and>
          0 < remainingTime (p_processes st ! r) \<and>
          (\<forall>i < length (p_processes st).
             arrivalTime (p_processes st ! i) < p_currentTime st \<and>
             0 < remainingTime (p_processes st ! i) \<longrightarrow>
             remainingTime (p_processes st ! r) \<le> remainingTime (p_processes st ! i)))"

definition example2 :: "Process list" where
  "example2 =
     [\<lparr>id' = ''P1'', arrivalTime = 0, burstTime = 4, priority = None\<rparr>,
      \<lparr>id' = ''P2'', arrivalTime = 1, burstTime = 3, priority = None\<rparr>]"

text \<open>
  The state of the example at time 1, P1 running since 0, and the same with a third process
  of burst time 2 that arrives at time 1.
\<close>

definition example2_at_1 :: srtf_state where
  "example2_at_1 =
     \<lparr>p_executionOrder = [], p_processMetrics = [],
      p_processes = [(withRemaining (example2 ! 0))\<lparr>remainingTime := 3\<rparr>,
                     withRemaining (example2 ! 1)],
      p_currentTime = 1, p_running = Some (0, 0)\<rparr>"

definition shorter_at_1 :: srtf_state where
  "shorter_at_1 =
     \<lparr>p_executionOrder = [], p_processMetrics = [],
      p_processes = [(withRemaining (example2 ! 0))\<lparr>remainingTime := 3\<rparr>,
                     withRemaining (example2 ! 1),
                     withRemaining \<lparr>id' = ''P3'', arrivalTime = 1, burstTime = 2, priority = None\<rparr>],
      p_currentTime = 1, p_running = Some (0, 0)\<rparr>"

text \<open>
  Two processes, the second of burst time 1 arriving while the first runs.
\<close>

definition short_arrival :: "Process list" where
  "short_arrival =
     [\<lparr>id' = ''P1'', arrivalTime = 0, burstTime = 4, priority = None\<rparr>,
      \<lparr>id' = ''P2'', arrivalTime = 1, burstTime = 1, priority = None\<rparr>]"

section \<open>Doubles that are integers\<close>

lemma js_double_exact: "\<bar>n\<bar> \<le> 2 ^ 53 \<Longrightarrow> js_double n = n"
  by (simp add: js_double_def)

lemma js_add_exact: "\<bar>a + b\<bar> \<le> 2 ^ 53 \<Longrightarrow> js_add a b = a + b"
  by (simp add: js_add_def js_double_exact)

lemma js_sub_exact: "\<bar>a - b\<bar> \<le> 2 ^ 53 \<Longrightarrow> js_sub a b = a - b"
  by (simp add: js_sub_def js_double_exact)

lemma bit_len_lower: "0 < n \<Longrightarrow> 2 ^ (bit_len n - 1) \<le> n"
proof (induction n rule: bit_len.induct)
  case (1 n)
  show ?case
  proof (cases "n div 2 = 0")
    case True
    with "1.prems" have "n = 1" by (simp add: div_eq_0_iff)
    then show ?thesis by (simp add: bit_len.simps)
  next
    case False
    with "1.IH" "1.prems" have ih: "2 ^ (bit_len (n div 2) - 1) \<le> n div 2" by simp
    from False have pos: "0 < bit_len (n div 2)"
      by (subst bit_len.simps) simp
    have "bit_len n = Suc (bit_len (n div 2))"
      using "1.prems" by (subst bit_len.simps) simp
    then have "2 ^ (bit_len n - 1) = 2 * 2 ^ (bit_len (n div 2) - 1)"
      using pos by (cases "bit_len (n div 2)") simp_all
    also have "\<dots> \<le> 2 * (n div 2)" using ih by simp
    also have "\<dots> \<le> n" by simp
    finally show ?thesis .
  qed
qed

lemma js_double_pos:
  assumes "0 < n"
  shows "0 < js_double n"
proof (cases "\<bar>n\<bar> \<le> 2 ^ 53")
  case True
  then have "js_double n = n" by (rule js_double_exact)
  with assms show ?thesis by simp
next
  case False
  define m where "m = nat \<bar>n\<bar>"
  define k where "k = bit_len m - 53"
  define q where "q = m div 2 ^ k"
  define q' where "q' = (if m mod 2 ^ k < 2 ^ (k - 1) then q
      else if 2 ^ (k - 1) < m mod 2 ^ k then q + 1
      else if even q then q else q + 1)"
  from assms have m: "0 < m" by (simp add: m_def)
  have "(2::nat) ^ k \<le> 2 ^ (bit_len m - 1)"
    unfolding k_def by (rule power_increasing) simp_all
  also have "\<dots> \<le> m" using m by (rule bit_len_lower)
  finally have "0 < q"
    unfolding q_def by (simp add: div_greater_zero_iff)
  then have "0 < q'" by (simp add: q'_def)
  then have pos: "0 < int (q' * 2 ^ k)" by simp
  have "js_double n = sgn n * int (q' * 2 ^ k)"
    using False unfolding q'_def q_def k_def m_def
    by (simp only: js_double_def Let_def if_False)
  also from assms have "sgn n = 1" by simp
  finally show ?thesis using pos by simp
qed

lemma bit_len_eq: "0 < b \<Longrightarrow> 2 ^ (b - 1) \<le> n \<Longrightarrow> n < 2 ^ b \<Longrightarrow> bit_len n = b"
proof (induction b arbitrary: n)
  case 0
  then show ?case by simp
next
  case (Suc b)
  from Suc.prems have n: "0 < n" by (cases "n = 0") simp_all
  then have step: "bit_len n = Suc (bit_len (n div 2))"
    by (subst bit_len.simps) simp
  show ?case
  proof (cases "b = 0")
    case True
    with Suc.prems n have "n = 1" by simp
    then show ?thesis using True by (simp add: bit_len.simps)
  next
    case False
    then obtain c where c: "b = Suc c" by (cases b) auto
    from Suc.prems have "2 * 2 ^ c \<le> n" "n < 2 * 2 ^ b" by (simp_all add: c)
    then have "2 ^ (b - 1) \<le> n div 2" "n div 2 < 2 ^ b"
      by (simp_all add: c)
    with Suc.IH [of "n div 2"] False have "bit_len (n div 2) = b" by simp
    with step show ?thesis by simp
  qed
qed

text \<open>The first integer that is not a double: \<open>2 ^ 53 + 1\<close> rounds to \<open>2 ^ 53\<close>.\<close>

lemma js_double_at_2_53_plus_1: "js_double 9007199254740993 = 9007199254740992"
proof -
  have "bit_len 9007199254740993 = 54"
    by (rule bit_len_eq) simp_all
  then show ?thesis
    by (simp add: js_double_def Let_def)
qed

text \<open>And \<open>2 ^ 53 + 3\<close>, half way between two doubles, rounds to \<open>2 ^ 53 + 4\<close>.\<close>

lemma js_double_at_2_53_plus_3: "js_double 9007199254740995 = 9007199254740996"
proof -
  have "bit_len 9007199254740995 = 54"
    by (rule bit_len_eq) simp_all
  then show ?thesis
    by (simp add: js_double_def Let_def)
qed

section \<open>The aggregator\<close>

lemma foldl_js_add_sum_list:
  assumes "\<forall>x \<in> set xs. 0 \<le> f x" and "0 \<le> a" and "a + sum_list (map f xs) \<le> 2 ^ 53"
  shows "foldl (\<lambda>sum p. js_add sum (f p)) a xs = a + sum_list (map f xs)"
  using assms
proof (induction xs arbitrary: a)
  case Nil
  show ?case by simp
next
  case (Cons x xs)
  from Cons.prems(1) have nn: "0 \<le> sum_list (map f xs)"
    by (intro sum_list_nonneg) auto
  from Cons.prems have x: "0 \<le> f x" by simp
  with Cons.prems nn have "\<bar>a + f x\<bar> \<le> 2 ^ 53" by simp
  then have e: "js_add a (f x) = a + f x" by (rule js_add_exact)
  have "foldl (\<lambda>sum p. js_add sum (f p)) (a + f x) xs = a + f x + sum_list (map f xs)"
    using Cons.prems x by (intro Cons.IH) simp_all
  then show ?case by (simp add: e)
qed

lemma js_div_sum_is_mean: "js_div (sum_list xs) (length xs) = arithmetic_mean xs"
  by (cases xs) (simp_all add: js_div_def arithmetic_mean_def)

lemma calculateAverages_means:
  assumes "sums_within_safe_range pm"
  shows "averages_are_means (calculateAverages eo pm)"
proof -
  have w: "foldl (\<lambda>sum p. js_add sum (waitingTime p)) 0 pm = sum_list (map waitingTime pm)"
    using assms foldl_js_add_sum_list [of pm waitingTime 0]
    by (simp add: sums_within_safe_range_def)
  have t: "foldl (\<lambda>sum p. js_add sum (turnaroundTime p)) 0 pm = sum_list (map turnaroundTime pm)"
    using assms foldl_js_add_sum_list [of pm turnaroundTime 0]
    by (simp add: sums_within_safe_range_def)
  have "js_div (sum_list (map waitingTime pm)) (length pm) = arithmetic_mean (map waitingTime pm)"
    using js_div_sum_is_mean [of "map waitingTime pm"] by simp
  moreover have "js_div (sum_list (map turnaroundTime pm)) (length pm)
      = arithmetic_mean (map turnaroundTime pm)"
    using js_div_sum_is_mean [of "map turnaroundTime pm"] by simp
  ultimately show ?thesis
    by (simp add: averages_are_means_def calculateAverages_def w t)
qed

lemma calculateAverages_sel [simp]:
  "executionOrder (calculateAverages eo pm) = eo"
  "processMetrics (calculateAverages eo pm) = pm"
  by (simp_all add: calculateAverages_def)

lemma calculateAverages_empty: "calculateAverages [] [] = empty_result"
  by (simp add: calculateAverages_def empty_result_def js_div_def)

section \<open>First come, first served: the fold is the recursion\<close>

lemma fcfs_body_step:
  "fcfs_body (eo, pm, t) x =
     (eo @ [\<lparr>processId = id' x, startTime = max t (arrivalTime x),
             endTime = js_add (max t (arrivalTime x)) (burstTime x)\<rparr>],
      pm @ [\<lparr>id' = id' x, arrivalTime = arrivalTime x, burstTime = burstTime x,
             priority = priority x,
             completionTime = js_add (max t (arrivalTime x)) (burstTime x),
             turnaroundTime = js_sub (js_add (max t (arrivalTime x)) (burstTime x)) (arrivalTime x),
             waitingTime = js_sub (max t (arrivalTime x)) (arrivalTime x)\<rparr>],
      js_add (max t (arrivalTime x)) (burstTime x))"
  by (simp add: fcfs_body_def Let_def)

lemma fcfs_fold:
  "\<exists>t'. foldl fcfs_body (eo, pm, t) xs = (eo @ fcfs_timeline_double t xs, pm @ fcfs_metrics_double t xs, t')"
proof (induction xs arbitrary: eo pm t)
  case Nil
  show ?case by simp
next
  case (Cons x xs)
  let ?e = "js_add (max t (arrivalTime x)) (burstTime x)"
  let ?b = "\<lparr>processId = id' x, startTime = max t (arrivalTime x), endTime = ?e\<rparr>"
  let ?m = "\<lparr>id' = id' x, arrivalTime = arrivalTime x, burstTime = burstTime x,
             priority = priority x, completionTime = ?e,
             turnaroundTime = js_sub ?e (arrivalTime x),
             waitingTime = js_sub (max t (arrivalTime x)) (arrivalTime x)\<rparr>"
  from Cons.IH [of "eo @ [?b]" "pm @ [?m]" ?e]
  show ?case
    by (simp add: fcfs_body_step)
qed

lemma scheduleFCFS_timeline:
  "executionOrder (scheduleFCFS ps) = fcfs_timeline_double 0 (sort_key arrivalTime ps)"
  "processMetrics (scheduleFCFS ps) = fcfs_metrics_double 0 (sort_key arrivalTime ps)"
proof -
  obtain t' where "foldl fcfs_body ([], [], 0) (sort_key arrivalTime ps)
      = ([] @ fcfs_timeline_double 0 (sort_key arrivalTime ps),
         [] @ fcfs_metrics_double 0 (sort_key arrivalTime ps), t')"
    using fcfs_fold [of "[]" "[]" 0 "sort_key arrivalTime ps"] by blast
  then show "executionOrder (scheduleFCFS ps) = fcfs_timeline_double 0 (sort_key arrivalTime ps)"
    and "processMetrics (scheduleFCFS ps) = fcfs_metrics_double 0 (sort_key arrivalTime ps)"
    by (simp_all add: scheduleFCFS_def)
qed

lemma scheduleFCFS_calculateAverages:
  "scheduleFCFS ps =
     calculateAverages (executionOrder (scheduleFCFS ps)) (processMetrics (scheduleFCFS ps))"
proof -
  obtain eo pm t where "foldl fcfs_body ([], [], 0) (sort_key arrivalTime ps) = (eo, pm, t)"
    by (cases "foldl fcfs_body ([], [], 0) (sort_key arrivalTime ps)") auto
  then show ?thesis
    by (simp add: scheduleFCFS_def)
qed

text \<open>Within the safe range the recursion is the exact one.\<close>

lemma fcfs_exact_in_range:
  assumes "0 \<le> t"
    and "\<forall>p \<in> set xs. 0 \<le> arrivalTime p \<and> 0 \<le> burstTime p"
    and "t + sum_list (map burstTime xs) \<le> 2 ^ 53"
    and "\<forall>p \<in> set xs. arrivalTime p + sum_list (map burstTime xs) \<le> 2 ^ 53"
  shows "fcfs_timeline_double t xs = fcfs_timeline t xs \<and>
         fcfs_metrics_double t xs = fcfs_metrics t xs"
  using assms
proof (induction xs arbitrary: t)
  case Nil
  show ?case by simp
next
  case (Cons x xs)
  let ?s = "max t (arrivalTime x)"
  let ?e = "?s + burstTime x"
  from Cons.prems(2) have nn: "0 \<le> sum_list (map burstTime xs)"
    by (intro sum_list_nonneg) auto
  from Cons.prems have a: "0 \<le> arrivalTime x" and b: "0 \<le> burstTime x" by simp_all
  from Cons.prems(3,4) nn have up: "?e + sum_list (map burstTime xs) \<le> 2 ^ 53"
    by (simp add: max_def)
  from Cons.prems(1) a have lo: "0 \<le> ?s" by simp
  from up nn lo b have e: "\<bar>?s + burstTime x\<bar> \<le> 2 ^ 53" by simp
  from up nn lo a b have t: "\<bar>?e - arrivalTime x\<bar> \<le> 2 ^ 53" by simp
  from up nn lo a b have w: "\<bar>?s - arrivalTime x\<bar> \<le> 2 ^ 53" by simp
  have add: "js_add ?s (burstTime x) = ?e" using e by (rule js_add_exact)
  have sub1: "js_sub ?e (arrivalTime x) = ?e - arrivalTime x" using t by (rule js_sub_exact)
  have sub2: "js_sub ?s (arrivalTime x) = ?s - arrivalTime x" using w by (rule js_sub_exact)
  have "\<forall>p \<in> set xs. arrivalTime p + sum_list (map burstTime xs) \<le> 2 ^ 53"
    using Cons.prems(4) b by auto
  moreover have "\<forall>p \<in> set xs. 0 \<le> arrivalTime p \<and> 0 \<le> burstTime p"
    using Cons.prems(2) by simp
  moreover have "0 \<le> ?e" using lo b by simp
  ultimately have "fcfs_timeline_double ?e xs = fcfs_timeline ?e xs \<and>
      fcfs_metrics_double ?e xs = fcfs_metrics ?e xs"
    using up by (intro Cons.IH) simp_all
  then show ?case
    by (simp add: add sub1 sub2)
qed

lemma sum_list_sort_key:
  "sum_list (map f (sort_key k xs)) = sum_list (map f xs)" for f :: "'a \<Rightarrow> int"
proof -
  have "sum_mset (mset (map f (sort_key k xs))) = sum_mset (mset (map f xs))"
    by simp
  then show ?thesis
    by (simp only: sum_mset_sum_list)
qed

lemma safe_range_total:
  assumes "\<forall>p \<in> set ps. 0 \<le> arrivalTime p" and "within_safe_range ps"
  shows "sum_list (map burstTime ps) \<le> 2 ^ 53"
proof (cases ps)
  case Nil
  then show ?thesis by simp
next
  case (Cons p ps')
  with assms have "0 \<le> arrivalTime p" "arrivalTime p + sum_list (map burstTime ps) \<le> 2 ^ 53"
    by (simp_all add: within_safe_range_def)
  then show ?thesis by simp
qed

lemma preconditions_nonneg:
  assumes "preconditions ps"
  shows "\<forall>p \<in> set ps. 0 \<le> arrivalTime p" and "\<forall>p \<in> set ps. 0 \<le> arrivalTime p \<and> 0 \<le> burstTime p"
  using assms by (auto simp: preconditions_def intro: less_imp_le)

lemma scheduleFCFS_exact:
  assumes pos: "\<forall>p \<in> set ps. 0 \<le> arrivalTime p \<and> 0 \<le> burstTime p"
    and safe: "within_safe_range ps"
  shows "executionOrder (scheduleFCFS ps) = fcfs_timeline 0 (sort_key arrivalTime ps)"
    and "processMetrics (scheduleFCFS ps) = fcfs_metrics 0 (sort_key arrivalTime ps)"
proof -
  let ?sp = "sort_key arrivalTime ps"
  have s: "sum_list (map burstTime ?sp) = sum_list (map burstTime ps)"
    by (rule sum_list_sort_key)
  from pos have arr: "\<forall>p \<in> set ps. 0 \<le> arrivalTime p" by simp
  have "\<forall>p \<in> set ?sp. 0 \<le> arrivalTime p \<and> 0 \<le> burstTime p"
    using pos by simp
  moreover have "0 + sum_list (map burstTime ?sp) \<le> 2 ^ 53"
    using safe_range_total [OF arr safe] by (simp add: s)
  moreover have "\<forall>p \<in> set ?sp. arrivalTime p + sum_list (map burstTime ?sp) \<le> 2 ^ 53"
    using safe by (simp add: s within_safe_range_def)
  ultimately have "fcfs_timeline_double 0 ?sp = fcfs_timeline 0 ?sp \<and>
      fcfs_metrics_double 0 ?sp = fcfs_metrics 0 ?sp"
    by (intro fcfs_exact_in_range) simp_all
  then show "executionOrder (scheduleFCFS ps) = fcfs_timeline 0 ?sp"
    and "processMetrics (scheduleFCFS ps) = fcfs_metrics 0 ?sp"
    by (simp_all add: scheduleFCFS_timeline)
qed

section \<open>Timelines\<close>

lemma cpu_time_Nil [simp]: "cpu_time [] i = 0"
  by (simp add: cpu_time_def)

lemma cpu_time_snoc:
  "cpu_time (eo @ [b]) i = cpu_time eo i + (if processId b = i then endTime b - startTime b else 0)"
  by (simp add: cpu_time_def)

lemma cpu_time_Cons:
  "cpu_time (b # eo) i = (if processId b = i then endTime b - startTime b else 0) + cpu_time eo i"
  by (simp add: cpu_time_def)

lemma timeline_upto_Nil [simp]: "timeline_upto t []"
  by (simp add: timeline_upto_def)

lemma timeline_upto_snoc:
  assumes "timeline_upto t eo" and "t \<le> s" and "s \<le> e"
  shows "timeline_upto e (eo @ [\<lparr>processId = i, startTime = s, endTime = e\<rparr>])"
  using assms by (fastforce simp: timeline_upto_def sorted_wrt_append)

lemma timeline_upto_mono: "timeline_upto t eo \<Longrightarrow> t \<le> t' \<Longrightarrow> timeline_upto t' eo"
  by (fastforce simp: timeline_upto_def)

lemma timeline_upto_non_overlapping:
  assumes "timeline_upto t eo"
  shows "non_overlapping eo"
proof -
  have chain: "endTime (eo ! i) \<le> startTime (eo ! j)" if "i < j" "j < length eo" for i j
    using assms that by (simp add: timeline_upto_def sorted_wrt_iff_nth_less)
  have "\<not> overlap (eo ! i) (eo ! j)" if "i < length eo" "j < length eo" "i \<noteq> j" for i j
  proof (cases "i < j")
    case True
    with chain [of i j] that show ?thesis by (simp add: overlap_def)
  next
    case False
    with that have "j < i" by simp
    with chain [of j i] that show ?thesis by (simp add: overlap_def)
  qed
  then show ?thesis by (simp add: non_overlapping_def)
qed

lemma timeline_upto_sorted:
  assumes "timeline_upto t eo"
  shows "sorted (map startTime eo)"
proof -
  have "sorted_wrt (\<lambda>a b. startTime a \<le> startTime b) eo"
  proof (rule sorted_wrt_mono_rel [of eo "\<lambda>a b. endTime a \<le> startTime b"])
    fix a b
    assume "a \<in> set eo" "b \<in> set eo" "endTime a \<le> startTime b"
    with assms show "startTime a \<le> startTime b"
      by (fastforce simp: timeline_upto_def)
  next
    show "sorted_wrt (\<lambda>a b. endTime a \<le> startTime b) eo"
      using assms by (simp add: timeline_upto_def)
  qed
  then show ?thesis by (simp add: sorted_map)
qed

lemma filter_key_distinct:
  "distinct (map f xs) \<Longrightarrow> p \<in> set xs \<Longrightarrow> filter (\<lambda>q. f q = f p) xs = [p]"
proof (induction xs)
  case Nil
  then show ?case by simp
next
  case (Cons x xs)
  show ?case
  proof (cases "x = p")
    case True
    with Cons.prems have "\<forall>q \<in> set xs. f q \<noteq> f p" by (auto simp: image_iff)
    then have "filter (\<lambda>q. f q = f p) xs = []" by (simp add: filter_empty_conv)
    with True show ?thesis by simp
  next
    case False
    with Cons.prems have "p \<in> set xs" "f x \<noteq> f p" by auto
    with Cons show ?thesis by simp
  qed
qed

section \<open>First come, first served: invariants of the recursion\<close>

lemma fcfs_timeline_chain:
  assumes "\<forall>p \<in> set xs. 0 \<le> burstTime p"
  shows "\<exists>t'. timeline_upto t' (fcfs_timeline t xs) \<and>
           (\<forall>b \<in> set (fcfs_timeline t xs). t \<le> startTime b)"
  using assms
proof (induction xs arbitrary: t)
  case Nil
  show ?case by simp
next
  case (Cons x xs)
  let ?e = "max t (arrivalTime x) + burstTime x"
  from Cons obtain t' where t': "timeline_upto t' (fcfs_timeline ?e xs)"
    and lb: "\<forall>b \<in> set (fcfs_timeline ?e xs). ?e \<le> startTime b"
    by fastforce
  from Cons.prems have b: "0 \<le> burstTime x" by simp
  have "timeline_upto (max t' ?e) (fcfs_timeline t (x # xs))"
    using t' lb b by (fastforce simp: timeline_upto_def)
  moreover have "\<forall>b \<in> set (fcfs_timeline t (x # xs)). t \<le> startTime b"
    using lb b by fastforce
  ultimately show ?case by blast
qed

lemma fcfs_timeline_cpu_time:
  "cpu_time (fcfs_timeline t xs) i = sum_list (map burstTime (filter (\<lambda>p. id' p = i) xs))"
  by (induction xs arbitrary: t) (simp_all add: cpu_time_Cons)

lemma fcfs_metrics_ok: "m \<in> set (fcfs_metrics t xs) \<Longrightarrow> metrics_ok m"
  by (induction xs arbitrary: t) (auto simp: metrics_ok_def)

lemma fcfs_metrics_truncate: "map Process.truncate (fcfs_metrics t xs) = xs"
  by (induction xs arbitrary: t) (simp_all add: Process.truncate_def)

lemma fcfs_metrics_completes:
  "m \<in> set (fcfs_metrics t xs) \<Longrightarrow> completes_at (fcfs_timeline t xs) m"
  by (induction xs arbitrary: t) (auto simp: completes_at_def)

lemma fcfs_conserved:
  assumes pre: "preconditions ps" and safe: "within_safe_range ps"
  shows "timeline_conserved ps (scheduleFCFS ps)"
proof -
  let ?sp = "sort_key arrivalTime ps"
  note eo = scheduleFCFS_exact(1) [OF preconditions_nonneg(2) [OF pre] safe]
  have d: "distinct (map id' ?sp)"
    using pre mset_eq_imp_distinct_iff [of "map id' ?sp" "map id' ps"]
    by (simp add: preconditions_def)
  have cpu: "cpu_time (executionOrder (scheduleFCFS ps)) (id' p) = burstTime p"
    if "p \<in> set ps" for p
  proof -
    from that have "p \<in> set ?sp" by simp
    from filter_key_distinct [OF d this] show ?thesis
      by (simp add: eo fcfs_timeline_cpu_time)
  qed
  have "\<forall>p \<in> set ?sp. 0 \<le> burstTime p"
    using pre by (auto simp: preconditions_def)
  from fcfs_timeline_chain [OF this, of 0] obtain t'
    where "timeline_upto t' (executionOrder (scheduleFCFS ps))"
    by (auto simp: eo)
  then show ?thesis
    using cpu timeline_upto_non_overlapping timeline_upto_sorted
    by (auto simp: timeline_conserved_def)
qed

lemma fcfs_metrics_sound:
  assumes pre: "preconditions ps" and safe: "within_safe_range ps"
  shows "metrics_sound ps (scheduleFCFS ps)"
proof -
  let ?sp = "sort_key arrivalTime ps"
  note eo = scheduleFCFS_exact(1) [OF preconditions_nonneg(2) [OF pre] safe]
  note pm = scheduleFCFS_exact(2) [OF preconditions_nonneg(2) [OF pre] safe]
  have "mset (map Process.truncate (processMetrics (scheduleFCFS ps))) = mset ps"
    by (simp add: pm fcfs_metrics_truncate)
  moreover have "\<forall>m \<in> set (processMetrics (scheduleFCFS ps)).
      metrics_ok m \<and> completes_at (executionOrder (scheduleFCFS ps)) m"
    unfolding eo pm by (simp add: fcfs_metrics_ok fcfs_metrics_completes)
  ultimately show ?thesis
    by (simp add: metrics_sound_def)
qed

section \<open>The loops of shortest job first and of priority\<close>

lemma withRemaining_sel [simp]:
  "id' (withRemaining p) = id' p"
  "arrivalTime (withRemaining p) = arrivalTime p"
  "burstTime (withRemaining p) = burstTime p"
  "priority (withRemaining p) = priority p"
  "remainingTime (withRemaining p) = burstTime p"
  by (simp_all add: withRemaining_def)

lemma truncate_sel [simp]:
  "id' (Process.truncate q) = id' q"
  "arrivalTime (Process.truncate q) = arrivalTime q"
  "burstTime (Process.truncate q) = burstTime q"
  "priority (Process.truncate q) = priority q"
  by (simp_all add: Process.truncate_def)

lemma truncate_withRemaining [simp]: "Process.truncate (withRemaining p) = p"
  by (simp add: Process.truncate_def withRemaining_def)

lemma available_mem:
  assumes "job \<in> set (availableProcesses (map withRemaining ps) s)"
  shows "\<exists>p \<in> set ps. job = withRemaining p \<and> arrivalTime p \<le> s_currentTime s \<and>
           id' p \<notin> s_completedProcesses s"
  using assms by (auto simp: availableProcesses_def)

lemma shortestJob_mem: "shortestJob x xs \<in> set (x # xs)"
proof (induction xs rule: rev_induct)
  case Nil
  show ?case by (simp add: shortestJob_def)
next
  case (snoc y ys)
  then show ?case by (auto simp: shortestJob_def)
qed

lemma highestPriority_mem: "highestPriority x xs \<in> set (x # xs)"
proof (induction xs rule: rev_induct)
  case Nil
  show ?case by (simp add: highestPriority_def)
next
  case (snoc y ys)
  then show ?case by (auto simp: highestPriority_def Let_def)
qed

lemma ids_card:
  assumes "distinct (map id' ps)"
  shows "card (id' ` set ps) = length ps"
  using assms distinct_card [of "map id' ps"] by simp

lemma completed_card_le:
  assumes "distinct (map id' ps)" and "C \<subseteq> id' ` set ps"
  shows "card C \<le> length ps"
  using assms card_mono [of "id' ` set ps" C] by (simp add: ids_card)

lemma sel_init_inv: "sel_inv ps sel_init"
  by (simp add: sel_inv_def sel_init_def)

lemma truncate_metrics [simp]:
  "Process.truncate
     \<lparr>id' = id' p, arrivalTime = arrivalTime p, burstTime = burstTime p, priority = priority p,
      completionTime = c, turnaroundTime = u, waitingTime = w\<rparr> = p" for p :: Process
  by (cases p) (simp add: Process.truncate_def)

lemma completes_at_append: "completes_at eo m \<Longrightarrow> completes_at (eo @ bs) m"
  by (auto simp: completes_at_def)

text \<open>
  Within the safe range no sum of a step is rounded, and the steps keep the invariant.
\<close>

lemma uncompleted_sum_insert:
  assumes "distinct (map id' ps)" and "p \<in> set ps" and "id' p \<notin> C"
  shows "sum_list (map burstTime (filter (\<lambda>q. id' q \<notin> insert (id' p) C) ps)) + burstTime p =
         sum_list (map burstTime (filter (\<lambda>q. id' q \<notin> C) ps))"
  using assms
proof (induction ps)
  case Nil
  then show ?case by simp
next
  case (Cons x xs)
  show ?case
  proof (cases "x = p")
    case True
    with Cons.prems have "\<forall>q \<in> set xs. id' q \<noteq> id' p" by (auto simp: image_iff)
    then have "filter (\<lambda>q. id' q \<notin> insert (id' p) C) xs = filter (\<lambda>q. id' q \<notin> C) xs"
      by (intro filter_cong) auto
    with True Cons.prems(3) show ?thesis by simp
  next
    case False
    with Cons.prems have "p \<in> set xs" "id' x \<noteq> id' p" by (auto simp: image_iff)
    with Cons show ?thesis by simp
  qed
qed

lemma uncompleted_sum_bounds:
  assumes "\<forall>p \<in> set ps. 0 \<le> burstTime p"
  shows "0 \<le> sum_list (map burstTime (filter P ps))"
    and "sum_list (map burstTime (filter P ps)) \<le> sum_list (map burstTime ps)"
  using assms by (induction ps) auto

lemma sel_init_safe:
  assumes "preconditions ps" and "within_safe_range ps"
  shows "sel_safe ps sel_init"
  using safe_range_total [OF preconditions_nonneg(1) [OF assms(1)] assms(2)]
  by (simp add: sel_safe_def sel_init_def)

lemma run_to_completion_inv:
  assumes pre: "preconditions ps" and inv: "sel_inv ps s" and safe: "sel_safe ps s"
    and p: "p \<in> set ps" and arr: "arrivalTime p \<le> s_currentTime s"
    and new: "id' p \<notin> s_completedProcesses s"
  shows "sel_inv ps (run_to_completion (withRemaining p) s)"
    and "sel_safe ps (run_to_completion (withRemaining p) s)"
    and "sel_measure ps (run_to_completion (withRemaining p) s) < sel_measure ps s"
proof -
  let ?s' = "run_to_completion (withRemaining p) s"
  let ?C = "s_completedProcesses s"
  let ?t = "s_currentTime s"
  from pre p have burst: "0 < burstTime p" and a: "0 \<le> arrivalTime p"
    and d: "distinct (map id' ps)" and nn: "\<forall>q \<in> set ps. 0 \<le> burstTime q"
    by (auto simp: preconditions_def intro: less_imp_le)
  note left = uncompleted_sum_insert [OF d p new]
  have r: "0 \<le> sum_list (map burstTime (filter (\<lambda>q. id' q \<notin> insert (id' p) ?C) ps))"
    using nn by (rule uncompleted_sum_bounds)
  from safe have t: "0 \<le> ?t"
    and up: "?t + sum_list (map burstTime (filter (\<lambda>q. id' q \<notin> ?C) ps)) \<le> 2 ^ 53"
    by (simp_all add: sel_safe_def)
  from up left r have e: "?t + burstTime p \<le> 2 ^ 53" by linarith
  have add: "js_add ?t (burstTime p) = ?t + burstTime p"
    using t burst e by (intro js_add_exact) simp
  have sub1: "js_sub (?t + burstTime p) (arrivalTime p) = ?t + burstTime p - arrivalTime p"
    using t burst e a arr by (intro js_sub_exact) simp
  have sub2: "js_sub ?t (arrivalTime p) = ?t - arrivalTime p"
    using t burst e a arr by (intro js_sub_exact) simp
  have C': "s_completedProcesses ?s' = insert (id' p) ?C"
    and t': "s_currentTime ?s' = ?t + burstTime p"
    and eo': "s_executionOrder ?s' = s_executionOrder s @
        [\<lparr>processId = id' p, startTime = ?t, endTime = ?t + burstTime p\<rparr>]"
    and pm': "s_processMetrics ?s' = s_processMetrics s @
        [\<lparr>id' = id' p, arrivalTime = arrivalTime p, burstTime = burstTime p,
          priority = priority p, completionTime = ?t + burstTime p,
          turnaroundTime = ?t + burstTime p - arrivalTime p,
          waitingTime = ?t - arrivalTime p\<rparr>]"
    by (simp_all add: run_to_completion_def Let_def add sub1 sub2)
  have sub: "s_completedProcesses ?s' \<subseteq> id' ` set ps"
    using inv p by (auto simp: C' sel_inv_def)
  have tl: "timeline_upto (s_currentTime ?s') (s_executionOrder ?s')"
    unfolding t' eo'
    using inv burst timeline_upto_snoc [of "s_currentTime s" "s_executionOrder s" "s_currentTime s"]
    by (simp add: sel_inv_def)
  have met: "\<forall>m \<in> set (s_processMetrics ?s'). metrics_ok m"
    using inv arr burst by (auto simp: pm' sel_inv_def metrics_ok_def)
  have mids: "id' ` set (s_processMetrics ?s') = s_completedProcesses ?s'"
    using inv by (simp add: pm' C' sel_inv_def)
  have cpu: "cpu_time (s_executionOrder ?s') (id' q) =
      (if id' q \<in> s_completedProcesses ?s' then burstTime q else 0)" if q: "q \<in> set ps" for q
  proof (cases "id' q = id' p")
    case True
    with d p q have "q = p"
      by (meson distinct_map inj_on_eq_iff)
    with inv p new show ?thesis
      by (simp add: eo' C' cpu_time_snoc sel_inv_def)
  next
    case False
    with inv q show ?thesis
      by (simp add: eo' C' cpu_time_snoc sel_inv_def)
  qed
  have fresh: "id' p \<notin> id' ` set (s_processMetrics s)"
    using inv new by (simp add: sel_inv_def)
  have dist: "distinct (map id' (s_processMetrics ?s'))"
    using inv fresh by (simp add: pm' sel_inv_def)
  have old: "Process.truncate m \<in> set ps \<and> completes_at (s_executionOrder ?s') m"
    if "m \<in> set (s_processMetrics s)" for m
    using inv that unfolding eo' by (simp add: sel_inv_def completes_at_append)
  have "completes_at (s_executionOrder ?s')
      \<lparr>id' = id' p, arrivalTime = arrivalTime p, burstTime = burstTime p,
       priority = priority p, completionTime = ?t + burstTime p,
       turnaroundTime = ?t + burstTime p - arrivalTime p, waitingTime = ?t - arrivalTime p\<rparr>"
    unfolding eo' by (simp add: completes_at_def)
  with old p have src: "\<forall>m \<in> set (s_processMetrics ?s').
      Process.truncate m \<in> set ps \<and> completes_at (s_executionOrder ?s') m"
    unfolding pm' by auto
  from cpu have cpu': "\<forall>q \<in> set ps. cpu_time (s_executionOrder ?s') (id' q) =
      (if id' q \<in> s_completedProcesses ?s' then burstTime q else 0)"
    by blast
  show "sel_inv ps ?s'"
    unfolding sel_inv_def by (intro conjI sub mids dist src tl met cpu')
  show "sel_safe ps ?s'"
    using t burst up left by (simp add: sel_safe_def C' t')
  have fin: "finite ?C"
    using inv by (auto simp: sel_inv_def intro: finite_subset)
  have "card (insert (id' p) ?C) \<le> length ps"
    using completed_card_le [OF d] sub by (simp add: C')
  with fin new have "length ps - card (s_completedProcesses ?s') < length ps - card ?C"
    by (simp add: C')
  moreover have "nat (Max (arrivalTime ` set ps) - s_currentTime ?s')
      \<le> nat (Max (arrivalTime ` set ps) - ?t)"
    using burst by (simp add: t')
  ultimately show "sel_measure ps ?s' < sel_measure ps s"
    by (simp add: sel_measure_def)
qed

lemma idle_inv:
  assumes pre: "preconditions ps" and inv: "sel_inv ps s"
    and left: "card (s_completedProcesses s) < length ps"
    and none: "availableProcesses (map withRemaining ps) s = []"
  shows "sel_inv ps (s\<lparr>s_currentTime := s_currentTime s + 1\<rparr>)"
    and "sel_measure ps (s\<lparr>s_currentTime := s_currentTime s + 1\<rparr>) < sel_measure ps s"
proof -
  let ?C = "s_completedProcesses s"
  from pre have d: "distinct (map id' ps)" by (simp add: preconditions_def)
  show "sel_inv ps (s\<lparr>s_currentTime := s_currentTime s + 1\<rparr>)"
    using inv timeline_upto_mono [of "s_currentTime s" "s_executionOrder s" "s_currentTime s + 1"]
    by (simp add: sel_inv_def)
  have "?C \<noteq> id' ` set ps"
    using left ids_card [OF d] by auto
  with inv obtain p where p: "p \<in> set ps" "id' p \<notin> ?C"
    by (auto simp: sel_inv_def)
  with none have "\<not> arrivalTime p \<le> s_currentTime s"
    by (auto simp: availableProcesses_def filter_empty_conv)
  moreover have "arrivalTime p \<le> Max (arrivalTime ` set ps)"
    using p by simp
  ultimately show "sel_measure ps (s\<lparr>s_currentTime := s_currentTime s + 1\<rparr>) < sel_measure ps s"
    by (simp add: sel_measure_def)
qed

lemma idle_safe:
  assumes pre: "preconditions ps" and range: "within_safe_range ps"
    and inv: "sel_inv ps s" and safe: "sel_safe ps s"
    and left: "card (s_completedProcesses s) < length ps"
    and none: "availableProcesses (map withRemaining ps) s = []"
  shows "js_add (s_currentTime s) 1 = s_currentTime s + 1"
    and "sel_safe ps (s\<lparr>s_currentTime := s_currentTime s + 1\<rparr>)"
proof -
  let ?C = "s_completedProcesses s"
  let ?t = "s_currentTime s"
  from pre have d: "distinct (map id' ps)" and nn: "\<forall>q \<in> set ps. 0 \<le> burstTime q"
    by (auto simp: preconditions_def intro: less_imp_le)
  have "?C \<noteq> id' ` set ps"
    using left ids_card [OF d] by auto
  with inv obtain p where p: "p \<in> set ps" "id' p \<notin> ?C"
    by (auto simp: sel_inv_def)
  with none have late: "?t < arrivalTime p"
    by (auto simp: availableProcesses_def filter_empty_conv)
  from range p have "arrivalTime p + sum_list (map burstTime ps) \<le> 2 ^ 53"
    by (simp add: within_safe_range_def)
  moreover have "0 \<le> sum_list (map burstTime (filter (\<lambda>q. id' q \<notin> ?C) ps))"
    and "sum_list (map burstTime (filter (\<lambda>q. id' q \<notin> ?C) ps)) \<le> sum_list (map burstTime ps)"
    using nn by (rule uncompleted_sum_bounds)+
  ultimately have up: "?t + 1 + sum_list (map burstTime (filter (\<lambda>q. id' q \<notin> ?C) ps)) \<le> 2 ^ 53"
    and one: "?t + 1 \<le> 2 ^ 53"
    using late by linarith+
  from safe have t: "0 \<le> ?t" by (simp add: sel_safe_def)
  show "js_add ?t 1 = ?t + 1"
    using t one by (intro js_add_exact) simp
  show "sel_safe ps (s\<lparr>s_currentTime := ?t + 1\<rparr>)"
    using t up by (simp add: sel_safe_def)
qed

lemma sjf_body_inv:
  assumes pre: "preconditions ps" and range: "within_safe_range ps"
    and inv: "sel_inv ps s" and safe: "sel_safe ps s"
    and left: "card (s_completedProcesses s) < length ps"
  shows "sel_inv ps (sjf_body (map withRemaining ps) s) \<and>
         sel_safe ps (sjf_body (map withRemaining ps) s) \<and>
         sel_measure ps (sjf_body (map withRemaining ps) s) < sel_measure ps s"
proof (cases "availableProcesses (map withRemaining ps) s")
  case Nil
  with idle_inv [OF pre inv left] idle_safe [OF pre range inv safe left] show ?thesis
    by (simp add: sjf_body_def)
next
  case (Cons x xs)
  have "shortestJob x xs \<in> set (availableProcesses (map withRemaining ps) s)"
    using shortestJob_mem [of x xs] Cons by simp
  from available_mem [OF this] obtain p where "p \<in> set ps" "shortestJob x xs = withRemaining p"
    "arrivalTime p \<le> s_currentTime s" "id' p \<notin> s_completedProcesses s" by blast
  with run_to_completion_inv [OF pre inv safe, of p] Cons show ?thesis
    by (simp add: sjf_body_def)
qed

lemma priority_body_inv:
  assumes pre: "preconditions ps" and range: "within_safe_range ps"
    and inv: "sel_inv ps s" and safe: "sel_safe ps s"
    and left: "card (s_completedProcesses s) < length ps"
  shows "sel_inv ps (priority_body (map withRemaining ps) s) \<and>
         sel_safe ps (priority_body (map withRemaining ps) s) \<and>
         sel_measure ps (priority_body (map withRemaining ps) s) < sel_measure ps s"
proof (cases "availableProcesses (map withRemaining ps) s")
  case Nil
  with idle_inv [OF pre inv left] idle_safe [OF pre range inv safe left] show ?thesis
    by (simp add: priority_body_def)
next
  case (Cons x xs)
  have "highestPriority x xs \<in> set (availableProcesses (map withRemaining ps) s)"
    using highestPriority_mem [of x xs] Cons by simp
  from available_mem [OF this] obtain p where "p \<in> set ps" "highestPriority x xs = withRemaining p"
    "arrivalTime p \<le> s_currentTime s" "id' p \<notin> s_completedProcesses s" by blast
  with run_to_completion_inv [OF pre inv safe, of p] Cons show ?thesis
    by (simp add: priority_body_def)
qed

lemma sjf_loop_total:
  assumes pre: "preconditions ps" and range: "within_safe_range ps"
    and "sel_inv ps s" and "sel_safe ps s"
  shows "\<exists>s'. sjf_loop (length ps) (map withRemaining ps) s = Some s' \<and> sel_inv ps s' \<and>
           \<not> card (s_completedProcesses s') < length ps"
  using assms(3,4)
proof (induction "sel_measure ps s" arbitrary: s rule: less_induct)
  case less
  show ?case
  proof (cases "card (s_completedProcesses s) < length ps")
    case True
    from sjf_body_inv [OF pre range less.prems True]
    have i: "sel_inv ps (sjf_body (map withRemaining ps) s)"
      and safe: "sel_safe ps (sjf_body (map withRemaining ps) s)"
      and d: "sel_measure ps (sjf_body (map withRemaining ps) s) < sel_measure ps s" by auto
    from less.hyps [OF d i safe] show ?thesis
      using True by (subst sjf_loop.simps) auto
  next
    case False
    then show ?thesis
      using less.prems by (subst sjf_loop.simps) auto
  qed
qed

lemma priority_loop_total:
  assumes pre: "preconditions ps" and range: "within_safe_range ps"
    and "sel_inv ps s" and "sel_safe ps s"
  shows "\<exists>s'. priority_loop (length ps) (map withRemaining ps) s = Some s' \<and> sel_inv ps s' \<and>
           \<not> card (s_completedProcesses s') < length ps"
  using assms(3,4)
proof (induction "sel_measure ps s" arbitrary: s rule: less_induct)
  case less
  show ?case
  proof (cases "card (s_completedProcesses s) < length ps")
    case True
    from priority_body_inv [OF pre range less.prems True]
    have i: "sel_inv ps (priority_body (map withRemaining ps) s)"
      and safe: "sel_safe ps (priority_body (map withRemaining ps) s)"
      and d: "sel_measure ps (priority_body (map withRemaining ps) s) < sel_measure ps s" by auto
    from less.hyps [OF d i safe] show ?thesis
      using True by (subst priority_loop.simps) auto
  next
    case False
    then show ?thesis
      using less.prems by (subst priority_loop.simps) auto
  qed
qed

lemma sel_final:
  assumes pre: "preconditions ps" and inv: "sel_inv ps s"
    and fin: "\<not> card (s_completedProcesses s) < length ps"
  shows "timeline_conserved ps (calculateAverages (s_executionOrder s) (s_processMetrics s))"
    and "metrics_sound ps (calculateAverages (s_executionOrder s) (s_processMetrics s))"
proof -
  let ?pm = "s_processMetrics s"
  from pre have d: "distinct (map id' ps)" by (simp add: preconditions_def)
  have sub: "s_completedProcesses s \<subseteq> id' ` set ps"
    using inv by (simp add: sel_inv_def)
  have "card (id' ` set ps) \<le> card (s_completedProcesses s)"
    using fin ids_card [OF d] by simp
  with sub have all: "s_completedProcesses s = id' ` set ps"
    by (simp add: card_seteq)
  have "\<forall>p \<in> set ps. cpu_time (s_executionOrder s) (id' p) = burstTime p"
    using inv all by (simp add: sel_inv_def)
  moreover have "timeline_upto (s_currentTime s) (s_executionOrder s)"
    using inv by (simp add: sel_inv_def)
  ultimately show "timeline_conserved ps (calculateAverages (s_executionOrder s) ?pm)"
    using timeline_upto_non_overlapping timeline_upto_sorted
    by (auto simp: timeline_conserved_def)
  from inv have dm: "distinct (map id' ?pm)" and ids: "id' ` set ?pm = s_completedProcesses s"
    and src: "\<forall>m \<in> set ?pm. Process.truncate m \<in> set ps"
    and ok: "\<forall>m \<in> set ?pm. metrics_ok m \<and> completes_at (s_executionOrder s) m"
    by (simp_all add: sel_inv_def)
  from dm have "distinct (map id' (map Process.truncate ?pm))"
    by (simp add: comp_def)
  then have dt: "distinct (map Process.truncate ?pm)"
    by (simp only: distinct_map)
  from d have dp: "distinct ps"
    by (simp only: distinct_map)
  have "length ?pm = card (id' ` set ?pm)"
    using distinct_card [OF dm] by simp
  also have "\<dots> = length ps"
    using ids all ids_card [OF d] by simp
  finally have len: "length ?pm = length ps" .
  have "card (set (map Process.truncate ?pm)) = length ps"
    using distinct_card [OF dt] len by simp
  moreover have "card (set ps) = length ps"
    using dp by (rule distinct_card)
  moreover have "set (map Process.truncate ?pm) \<subseteq> set ps"
    using src by auto
  ultimately have "set (map Process.truncate ?pm) = set ps"
    by (intro card_seteq) simp_all
  with dt dp have "mset (map Process.truncate ?pm) = mset ps"
    by (simp only: set_eq_iff_mset_eq_distinct)
  with ok show "metrics_sound ps (calculateAverages (s_executionOrder s) ?pm)"
    by (simp add: metrics_sound_def)
qed

lemma scheduleSJF_total:
  assumes pre: "preconditions ps" and range: "within_safe_range ps"
  shows "\<exists>r. scheduleSJF ps = Some r \<and> timeline_conserved ps r \<and> metrics_sound ps r"
proof -
  from sjf_loop_total [OF pre range sel_init_inv sel_init_safe [OF pre range]] obtain s' where
    "sjf_loop (length ps) (map withRemaining ps) sel_init = Some s'" "sel_inv ps s'"
    "\<not> card (s_completedProcesses s') < length ps" by blast
  with sel_final [OF pre, of s'] show ?thesis
    by (simp add: scheduleSJF_def)
qed

lemma schedulePriority_total:
  assumes pre: "preconditions ps" and range: "within_safe_range ps"
  shows "\<exists>r. schedulePriority ps = Some r \<and> timeline_conserved ps r \<and> metrics_sound ps r"
proof -
  from priority_loop_total [OF pre range sel_init_inv sel_init_safe [OF pre range]] obtain s' where
    "priority_loop (length ps) (map withRemaining ps) sel_init = Some s'" "sel_inv ps s'"
    "\<not> card (s_completedProcesses s') < length ps" by blast
  with sel_final [OF pre, of s'] show ?thesis
    by (simp add: schedulePriority_def)
qed

section \<open>The loop of round robin\<close>

lemma enqueue_arrived_takeWhile:
  "enqueue_arrived pq st =
     st\<lparr>r_readyQueue := r_readyQueue st @
            takeWhile (\<lambda>p. arrivalTime p \<le> r_currentTime st) (drop (r_processIndex st) pq),
        r_processIndex := r_processIndex st +
            length (takeWhile (\<lambda>p. arrivalTime p \<le> r_currentTime st) (drop (r_processIndex st) pq))\<rparr>"
proof (induction pq st rule: enqueue_arrived.induct)
  case (1 pq st)
  let ?i = "r_processIndex st"
  show ?case
  proof (cases "?i < length pq \<and> arrivalTime (pq ! ?i) \<le> r_currentTime st")
    case True
    then have d: "drop ?i pq = pq ! ?i # drop (Suc ?i) pq"
      by (simp add: Cons_nth_drop_Suc)
    show ?thesis
      using True "1.IH" [OF True]
      by (subst enqueue_arrived.simps) (simp add: d)
  next
    case False
    then have "takeWhile (\<lambda>p. arrivalTime p \<le> r_currentTime st) (drop ?i pq) = []"
      by (cases "?i < length pq") (simp_all add: Cons_nth_drop_Suc [symmetric])
    then show ?thesis
      using False by (subst enqueue_arrived.simps) auto
  qed
qed

lemma rr_loop_diverges:
  assumes "J st" and step: "\<And>s. J s \<Longrightarrow> rr_cond pq s \<and> J (rr_body pq tq s)"
  shows "rr_loop pq tq st = None"
proof (rule ccontr)
  assume "rr_loop pq tq st \<noteq> None"
  then obtain y where y: "rr_loop pq tq st = Some y" by auto
  have "pq = pq \<and> tq = tq \<and> J st \<longrightarrow> False"
  proof (rule rr_loop.raw_induct
      [where P = "\<lambda>pq' tq' s z. pq' = pq \<and> tq' = tq \<and> J s \<longrightarrow> False", OF _ y])
    fix f pq' tq' s z
    assume ih: "\<And>a b c d. f a b c = Some d \<Longrightarrow> a = pq \<and> b = tq \<and> J c \<longrightarrow> False"
      and eq: "(if rr_cond pq' s then f pq' tq' (rr_body pq' tq' s) else Some s) = Some z"
    show "pq' = pq \<and> tq' = tq \<and> J s \<longrightarrow> False"
    proof (intro impI, elim conjE)
      assume e: "pq' = pq" "tq' = tq" and js: "J s"
      from step [OF js] have c: "rr_cond pq s" and j: "J (rr_body pq tq s)" by auto
      from eq c e have "f pq tq (rr_body pq tq s) = Some z" by simp
      from ih [OF this] j show False by simp
    qed
  qed
  with assms(1) show False by simp
qed

lemma rr_loop_total:
  assumes "I st"
    and step: "\<And>s. I s \<Longrightarrow> rr_cond pq s \<Longrightarrow> I (rr_body pq tq s) \<and> m (rr_body pq tq s) < (m s :: nat)"
  shows "\<exists>s'. rr_loop pq tq st = Some s' \<and> I s' \<and> \<not> rr_cond pq s'"
  using assms(1)
proof (induction "m st" arbitrary: st rule: less_induct)
  case less
  show ?case
  proof (cases "rr_cond pq st")
    case True
    from step [OF less.prems True]
    have i: "I (rr_body pq tq st)" and d: "m (rr_body pq tq st) < m st" by auto
    from less.hyps [OF d i] obtain s' where
      "rr_loop pq tq (rr_body pq tq st) = Some s'" "I s'" "\<not> rr_cond pq s'" by blast
    then show ?thesis
      using True by (subst rr_loop.simps) auto
  next
    case False
    then show ?thesis
      using less.prems by (subst rr_loop.simps) auto
  qed
qed

lemma enqueue_arrived_eq:
  "enqueue_arrived pq st =
     st\<lparr>r_readyQueue := r_readyQueue st @ arrived pq (r_processIndex st) (r_currentTime st),
        r_processIndex := r_processIndex st +
            length (arrived pq (r_processIndex st) (r_currentTime st))\<rparr>"
  by (simp add: arrived_def enqueue_arrived_takeWhile)

lemma arrived_drop: "arrived pq i t @ drop (i + length (arrived pq i t)) pq = drop i pq"
proof -
  have "drop (i + length (arrived pq i t)) pq = dropWhile (\<lambda>p. arrivalTime p \<le> t) (drop i pq)"
    by (simp add: arrived_def dropWhile_eq_drop add.commute)
  then show ?thesis by (simp add: arrived_def)
qed

lemma arrived_le: "p \<in> set (arrived pq i t) \<Longrightarrow> arrivalTime p \<le> t"
  by (auto simp: arrived_def dest: set_takeWhileD)

lemma arrived_set: "p \<in> set (arrived pq i t) \<Longrightarrow> p \<in> set pq"
  by (auto simp: arrived_def dest: set_takeWhileD in_set_dropD)

lemma arrived_length: "i \<le> length pq \<Longrightarrow> i + length (arrived pq i t) \<le> length pq"
  using length_takeWhile_le [of "\<lambda>p. arrivalTime p \<le> t" "drop i pq"]
  by (simp add: arrived_def)

lemma arrived_Nil_next:
  assumes "arrived pq i t = []" and "i < length pq"
  shows "t < arrivalTime (pq ! i)"
  using assms by (simp add: arrived_def takeWhile_eq_Nil_iff hd_drop_conv_nth)

lemma rr_body_idle:
  assumes "r_readyQueue s @ arrived pq (r_processIndex s) (r_currentTime s) = []"
  shows "rr_body pq tq s = s\<lparr>r_currentTime := js_add (r_currentTime s) 1\<rparr>"
  using assms by (simp add: rr_body_def enqueue_arrived_eq)

lemma rr_body_run:
  assumes "r_readyQueue s @ arrived pq (r_processIndex s) (r_currentTime s) = cur # rest"
  shows "r_executionOrder (rr_body pq tq s) = r_executionOrder s @
           [\<lparr>processId = id' cur, startTime = r_currentTime s,
             endTime = js_add (r_currentTime s) (min tq (remainingTime cur))\<rparr>]"
    and "r_currentTime (rr_body pq tq s) = js_add (r_currentTime s) (min tq (remainingTime cur))"
    and "r_processIndex (rr_body pq tq s) =
           r_processIndex s + length (arrived pq (r_processIndex s) (r_currentTime s)) +
           length (arrived pq (r_processIndex s + length (arrived pq (r_processIndex s) (r_currentTime s)))
                     (js_add (r_currentTime s) (min tq (remainingTime cur))))"
    and "r_readyQueue (rr_body pq tq s) =
           rest @ arrived pq (r_processIndex s + length (arrived pq (r_processIndex s) (r_currentTime s)))
                    (js_add (r_currentTime s) (min tq (remainingTime cur))) @
           (if 0 < js_sub (remainingTime cur) (min tq (remainingTime cur))
            then [cur\<lparr>remainingTime := js_sub (remainingTime cur) (min tq (remainingTime cur))\<rparr>]
            else [])"
    and "r_processMetrics (rr_body pq tq s) = r_processMetrics s @
           (if 0 < js_sub (remainingTime cur) (min tq (remainingTime cur)) then []
            else [\<lparr>id' = id' cur, arrivalTime = arrivalTime cur, burstTime = burstTime cur,
                   priority = priority cur,
                   completionTime = js_add (r_currentTime s) (min tq (remainingTime cur)),
                   turnaroundTime =
                     js_sub (js_add (r_currentTime s) (min tq (remainingTime cur))) (arrivalTime cur),
                   waitingTime =
                     js_sub (js_sub (js_add (r_currentTime s) (min tq (remainingTime cur)))
                       (arrivalTime cur)) (burstTime cur)\<rparr>])"
  using assms by (simp_all add: rr_body_def enqueue_arrived_eq Let_def)

lemma sum_list_pos_nonneg:
  "\<forall>q \<in> set xs. 0 < f q \<Longrightarrow> 0 \<le> sum_list (map f xs)" for f :: "'a \<Rightarrow> int"
  by (induction xs) auto

lemma sum_list_drop_le:
  fixes f :: "'a \<Rightarrow> int"
  assumes "\<forall>x \<in> set xs. 0 \<le> f x"
  shows "sum_list (map f (drop i xs)) \<le> sum_list (map f xs)"
proof -
  have "\<forall>x \<in> set (take i xs). 0 \<le> f x"
    using assms by (auto dest: in_set_takeD)
  then have "0 \<le> sum_list (map f (take i xs))"
    by (intro sum_list_nonneg) auto
  moreover have "sum_list (map f xs) = sum_list (map f (take i xs)) + sum_list (map f (drop i xs))"
    using sum_list_append [of "map f (take i xs)" "map f (drop i xs)"]
    by (simp only: map_append [symmetric] append_take_drop_id)
  ultimately show ?thesis by simp
qed

lemma elem_le_sum_list:
  fixes f :: "'a \<Rightarrow> int"
  assumes "\<forall>x \<in> set xs. 0 \<le> f x" and "y \<in> set xs"
  shows "f y \<le> sum_list (map f xs)"
  using assms
proof (induction xs)
  case Nil
  then show ?case by simp
next
  case (Cons x xs)
  from Cons.prems(1) have "0 \<le> sum_list (map f xs)"
    by (intro sum_list_nonneg) auto
  with Cons show ?case by auto
qed

lemma rr_pending_source:
  assumes inv: "rr_inv pq s" and cur: "cur \<in> set (pending pq s)"
  shows "\<exists>q \<in> set pq. arrivalTime q = arrivalTime cur \<and> burstTime q = burstTime cur"
proof -
  from inv have "mset (map Process.truncate (pending pq s)) +
      mset (map Process.truncate (r_processMetrics s)) = mset (map Process.truncate pq)"
    by (simp add: rr_inv_def)
  then have "set (map Process.truncate (pending pq s)) \<union>
      set (map Process.truncate (r_processMetrics s)) = set (map Process.truncate pq)"
    by (metis set_mset_mset set_mset_union)
  with cur have "Process.truncate cur \<in> Process.truncate ` set pq"
    by auto
  then obtain q where q: "q \<in> set pq" "Process.truncate cur = Process.truncate q"
    by (auto simp: image_iff)
  from q(2) have "arrivalTime (Process.truncate q) = arrivalTime (Process.truncate cur)"
    and "burstTime (Process.truncate q) = burstTime (Process.truncate cur)"
    by simp_all
  with q(1) show ?thesis
    by (simp only: truncate_sel) blast
qed

lemma rr_pending_run:
  assumes run: "r_readyQueue s @ arrived pq (r_processIndex s) (r_currentTime s) = cur # rest"
  shows "\<exists>others1 others2.
           pending pq s = cur # others1 @ others2 \<and>
           pending pq (rr_body pq tq s) = others1 @
             (if 0 < js_sub (remainingTime cur) (min tq (remainingTime cur))
              then [cur\<lparr>remainingTime := js_sub (remainingTime cur) (min tq (remainingTime cur))\<rparr>]
              else [])
             @ others2"
proof -
  let ?t = "r_currentTime s"
  let ?i = "r_processIndex s"
  let ?adm1 = "arrived pq ?i ?t"
  let ?i1 = "?i + length ?adm1"
  let ?e = "min tq (remainingTime cur)"
  let ?adm2 = "arrived pq ?i1 (js_add ?t ?e)"
  let ?i3 = "?i1 + length ?adm2"
  let ?rem = "js_sub (remainingTime cur) ?e"
  note body = rr_body_run [OF run, of tq]
  have "drop ?i pq = ?adm1 @ drop ?i1 pq"
    by (simp add: arrived_drop)
  also have "drop ?i1 pq = ?adm2 @ drop ?i3 pq"
    by (simp add: arrived_drop)
  finally have d: "drop ?i pq = ?adm1 @ ?adm2 @ drop ?i3 pq" .
  have "pending pq s = (r_readyQueue s @ ?adm1) @ ?adm2 @ drop ?i3 pq"
    unfolding pending_def by (subst d) simp
  then have "pending pq s = cur # (rest @ ?adm2) @ drop ?i3 pq"
    unfolding run by simp
  moreover have "pending pq (rr_body pq tq s) = (rest @ ?adm2) @
      (if 0 < ?rem then [cur\<lparr>remainingTime := ?rem\<rparr>] else []) @ drop ?i3 pq"
    unfolding pending_def body by simp
  ultimately show ?thesis by blast
qed

text \<open>
  Within the safe range no sum or difference of an iteration is rounded, and the iteration
  keeps the invariant.
\<close>

lemma rr_run_bounds:
  assumes range: "\<forall>q \<in> set pq. 0 \<le> arrivalTime q \<and> 0 \<le> burstTime q \<and>
        arrivalTime q + burstTime q \<le> 2 ^ 53 \<and>
        arrivalTime q + sum_list (map burstTime pq) \<le> 2 ^ 53"
    and tq: "0 < tq" and inv: "rr_inv pq s" and safe: "rr_safe pq s"
    and run: "r_readyQueue s @ arrived pq (r_processIndex s) (r_currentTime s) = cur # rest"
  shows "js_add (r_currentTime s) (min tq (remainingTime cur)) =
           r_currentTime s + min tq (remainingTime cur)"
    and "js_sub (remainingTime cur) (min tq (remainingTime cur)) =
           remainingTime cur - min tq (remainingTime cur)"
    and "js_sub (r_currentTime s + min tq (remainingTime cur)) (arrivalTime cur) =
           r_currentTime s + min tq (remainingTime cur) - arrivalTime cur"
    and "js_sub (r_currentTime s + min tq (remainingTime cur) - arrivalTime cur) (burstTime cur) =
           r_currentTime s + min tq (remainingTime cur) - arrivalTime cur - burstTime cur"
proof -
  let ?t = "r_currentTime s"
  let ?e = "min tq (remainingTime cur)"
  let ?a = "arrivalTime cur"
  let ?b = "burstTime cur"
  from inv have i: "r_processIndex s \<le> length pq" by (simp add: rr_inv_def)
  from rr_pending_run [OF run, of tq] obtain o1 o2 where
    pend: "pending pq s = cur # o1 @ o2"
    by blast
  from inv have pos: "\<forall>q \<in> set (pending pq s). 0 < remainingTime q"
    by (simp add: rr_inv_def)
  then have cur_pos: "0 < remainingTime cur" by (simp add: pend)
  with tq have e: "0 < ?e" "?e \<le> remainingTime cur" by simp_all
  from pos have others: "0 \<le> sum_list (map remainingTime (o1 @ o2))"
    unfolding pend by (intro sum_list_pos_nonneg) simp
  from safe have t: "0 \<le> ?t"
    and up: "?t + (remainingTime cur + sum_list (map remainingTime (o1 @ o2))) \<le> 2 ^ 53"
    unfolding rr_safe_def pend by simp_all
  have "cur \<in> set (pending pq s)" by (simp add: pend)
  from rr_pending_source [OF inv this] range
  have a: "0 \<le> ?a" and b: "0 \<le> ?b" and ab: "?a + ?b \<le> 2 ^ 53"
    by auto
  have fin_lo: "0 \<le> ?t + ?e" using t e(1) by simp
  have fin_up: "?t + ?e \<le> 2 ^ 53"
  proof -
    have "?t + ?e \<le> ?t + remainingTime cur" by simp
    also have "\<dots> \<le> 2 ^ 53" using up others by simp
    finally show ?thesis .
  qed
  have rem_up: "remainingTime cur \<le> 2 ^ 53"
    using up others t by simp
  have add: "js_add ?t ?e = ?t + ?e"
    using fin_lo fin_up by (intro js_add_exact) (simp only: abs_of_nonneg)
  have "0 \<le> remainingTime cur - ?e" "remainingTime cur - ?e \<le> 2 ^ 53"
    using e rem_up by linarith+
  then have sub: "js_sub (remainingTime cur) ?e = remainingTime cur - ?e"
    by (intro js_sub_exact) (simp only: abs_of_nonneg)
  have "\<bar>?t + ?e - ?a\<bar> \<le> 2 ^ 53"
    using fin_lo fin_up a b ab by (simp only: abs_le_iff) linarith
  then have turn: "js_sub (?t + ?e) ?a = ?t + ?e - ?a"
    by (rule js_sub_exact)
  have "\<bar>?t + ?e - ?a - ?b\<bar> \<le> 2 ^ 53"
    using fin_lo fin_up a b ab by (simp only: abs_le_iff) linarith
  then have wait: "js_sub (?t + ?e - ?a) ?b = ?t + ?e - ?a - ?b"
    by (rule js_sub_exact)
  show "js_add ?t ?e = ?t + ?e" by (rule add)
  show "js_sub (remainingTime cur) ?e = remainingTime cur - ?e" by (rule sub)
  show "js_sub (?t + ?e) ?a = ?t + ?e - ?a" by (rule turn)
  show "js_sub (?t + ?e - ?a) ?b = ?t + ?e - ?a - ?b" by (rule wait)
qed

lemma rr_body_run_exact:
  assumes range: "\<forall>q \<in> set pq. 0 \<le> arrivalTime q \<and> 0 \<le> burstTime q \<and>
        arrivalTime q + burstTime q \<le> 2 ^ 53 \<and>
        arrivalTime q + sum_list (map burstTime pq) \<le> 2 ^ 53"
    and tq: "0 < tq" and inv: "rr_inv pq s" and safe: "rr_safe pq s"
    and run: "r_readyQueue s @ arrived pq (r_processIndex s) (r_currentTime s) = cur # rest"
  shows "r_executionOrder (rr_body pq tq s) = r_executionOrder s @
           [\<lparr>processId = id' cur, startTime = r_currentTime s,
             endTime = r_currentTime s + min tq (remainingTime cur)\<rparr>]"
    and "r_currentTime (rr_body pq tq s) = r_currentTime s + min tq (remainingTime cur)"
    and "r_processIndex (rr_body pq tq s) =
           r_processIndex s + length (arrived pq (r_processIndex s) (r_currentTime s)) +
           length (arrived pq (r_processIndex s + length (arrived pq (r_processIndex s) (r_currentTime s)))
                     (r_currentTime s + min tq (remainingTime cur)))"
    and "r_readyQueue (rr_body pq tq s) =
           rest @ arrived pq (r_processIndex s + length (arrived pq (r_processIndex s) (r_currentTime s)))
                    (r_currentTime s + min tq (remainingTime cur)) @
           (if 0 < remainingTime cur - min tq (remainingTime cur)
            then [cur\<lparr>remainingTime := remainingTime cur - min tq (remainingTime cur)\<rparr>] else [])"
    and "r_processMetrics (rr_body pq tq s) = r_processMetrics s @
           (if 0 < remainingTime cur - min tq (remainingTime cur) then []
            else [\<lparr>id' = id' cur, arrivalTime = arrivalTime cur, burstTime = burstTime cur,
                   priority = priority cur,
                   completionTime = r_currentTime s + min tq (remainingTime cur),
                   turnaroundTime = r_currentTime s + min tq (remainingTime cur) - arrivalTime cur,
                   waitingTime = r_currentTime s + min tq (remainingTime cur) - arrivalTime cur
                     - burstTime cur\<rparr>])"
  unfolding rr_body_run [OF run] rr_run_bounds [OF range tq inv safe run] by (rule refl)+

lemma rr_body_idle_exact:
  assumes fresh: "\<forall>q \<in> set pq. remainingTime q = burstTime q \<and> 0 < burstTime q"
    and range: "\<forall>q \<in> set pq. 0 \<le> arrivalTime q \<and> 0 \<le> burstTime q \<and>
        arrivalTime q + burstTime q \<le> 2 ^ 53 \<and>
        arrivalTime q + sum_list (map burstTime pq) \<le> 2 ^ 53"
    and safe: "rr_safe pq s" and cond: "rr_cond pq s"
    and nil: "r_readyQueue s @ arrived pq (r_processIndex s) (r_currentTime s) = []"
  shows "rr_body pq tq s = s\<lparr>r_currentTime := r_currentTime s + 1\<rparr>"
    and "rr_safe pq (rr_body pq tq s)"
proof -
  let ?t = "r_currentTime s"
  let ?i = "r_processIndex s"
  from nil have rq: "r_readyQueue s = []" by simp
  with cond have i: "?i < length pq"
    by (simp add: rr_cond_def)
  from nil have "arrived pq ?i ?t = []" by simp
  from arrived_Nil_next [OF this i] have late: "?t < arrivalTime (pq ! ?i)" .
  from range i have up: "arrivalTime (pq ! ?i) + sum_list (map burstTime pq) \<le> 2 ^ 53"
    by simp
  have meq: "map remainingTime (drop ?i pq) = map burstTime (drop ?i pq)"
    using fresh by (intro map_cong) (auto dest: in_set_dropD)
  have le: "sum_list (map burstTime (drop ?i pq)) \<le> sum_list (map burstTime pq)"
    using fresh by (intro sum_list_drop_le) (auto intro: less_imp_le)
  have nn: "0 \<le> sum_list (map burstTime (drop ?i pq))"
    using fresh by (intro sum_list_nonneg) (auto dest: in_set_dropD intro: less_imp_le)
  have sum: "sum_list (map remainingTime (pending pq s)) = sum_list (map burstTime (drop ?i pq))"
    unfolding pending_def rq append_Nil meq ..
  have pend: "0 \<le> sum_list (map remainingTime (pending pq s))"
    and pend_le: "sum_list (map remainingTime (pending pq s)) \<le> sum_list (map burstTime pq)"
    unfolding sum using le nn by simp_all
  from safe have t: "0 \<le> ?t" by (simp add: rr_safe_def)
  from late up pend pend_le have one: "?t + 1 \<le> 2 ^ 53"
    and next_safe: "?t + 1 + sum_list (map remainingTime (pending pq s)) \<le> 2 ^ 53"
    by linarith+
  have add: "js_add ?t 1 = ?t + 1"
    using t one by (intro js_add_exact) simp
  show body: "rr_body pq tq s = s\<lparr>r_currentTime := ?t + 1\<rparr>"
    unfolding rr_body_idle [OF nil] add ..
  have "pending pq (s\<lparr>r_currentTime := ?t + 1\<rparr>) = pending pq s"
    by (simp add: pending_def)
  then show "rr_safe pq (rr_body pq tq s)"
    unfolding body using t next_safe by (simp add: rr_safe_def)
qed

lemma rr_idle_step:
  assumes fresh: "\<forall>q \<in> set pq. remainingTime q = burstTime q \<and> 0 < burstTime q"
    and range: "\<forall>q \<in> set pq. 0 \<le> arrivalTime q \<and> 0 \<le> burstTime q \<and>
        arrivalTime q + burstTime q \<le> 2 ^ 53 \<and>
        arrivalTime q + sum_list (map burstTime pq) \<le> 2 ^ 53"
    and inv: "rr_inv pq s" and safe: "rr_safe pq s" and cond: "rr_cond pq s"
    and nil: "r_readyQueue s @ arrived pq (r_processIndex s) (r_currentTime s) = []"
  shows "rr_inv pq (rr_body pq tq s)"
    and "rr_measure pq (rr_body pq tq s) < rr_measure pq s"
proof -
  let ?s' = "s\<lparr>r_currentTime := r_currentTime s + 1\<rparr>"
  have body: "rr_body pq tq s = ?s'"
    by (rule rr_body_idle_exact(1) [OF fresh range safe cond nil])
  have p: "pending pq ?s' = pending pq s"
    by (simp add: pending_def)
  from nil have rq: "r_readyQueue s = []" by simp
  have "timeline_upto (r_currentTime s + 1) (r_executionOrder s)"
    using inv timeline_upto_mono [of "r_currentTime s" "r_executionOrder s" "r_currentTime s + 1"]
    by (simp add: rr_inv_def)
  then show "rr_inv pq (rr_body pq tq s)"
    using inv rq unfolding body rr_inv_def p by simp
  from cond rq have i: "r_processIndex s < length pq"
    by (simp add: rr_cond_def)
  from nil have "arrived pq (r_processIndex s) (r_currentTime s) = []" by simp
  from arrived_Nil_next [OF this i] have "r_currentTime s < arrivalTime (pq ! r_processIndex s)" .
  moreover have "arrivalTime (pq ! r_processIndex s) \<le> Max (arrivalTime ` set pq)"
    using i by simp
  ultimately show "rr_measure pq (rr_body pq tq s) < rr_measure pq s"
    unfolding body rr_measure_def p by simp
qed

lemma rr_run_step:
  assumes fresh: "\<forall>q \<in> set pq. remainingTime q = burstTime q"
    and range: "\<forall>q \<in> set pq. 0 \<le> arrivalTime q \<and> 0 \<le> burstTime q \<and>
        arrivalTime q + burstTime q \<le> 2 ^ 53 \<and>
        arrivalTime q + sum_list (map burstTime pq) \<le> 2 ^ 53"
    and tq: "0 < tq" and inv: "rr_inv pq s" and safe: "rr_safe pq s"
    and run: "r_readyQueue s @ arrived pq (r_processIndex s) (r_currentTime s) = cur # rest"
  shows "rr_inv pq (rr_body pq tq s)"
    and "rr_measure pq (rr_body pq tq s) < rr_measure pq s"
proof -
  let ?s' = "rr_body pq tq s"
  let ?t = "r_currentTime s"
  let ?i = "r_processIndex s"
  let ?adm1 = "arrived pq ?i ?t"
  let ?i1 = "?i + length ?adm1"
  let ?e = "min tq (remainingTime cur)"
  let ?adm2 = "arrived pq ?i1 (?t + ?e)"
  let ?i3 = "?i1 + length ?adm2"
  let ?ran = "cur\<lparr>remainingTime := remainingTime cur - ?e\<rparr>"
  let ?requeue = "if 0 < remainingTime cur - ?e then [?ran] else []"
  note body = rr_body_run_exact [OF range tq inv safe run]
  from inv have i: "?i \<le> length pq" by (simp add: rr_inv_def)
  then have i1: "?i1 \<le> length pq" by (rule arrived_length)
  then have i3: "?i3 \<le> length pq" by (rule arrived_length)
  have "drop ?i pq = ?adm1 @ drop ?i1 pq"
    by (simp add: arrived_drop)
  also have "drop ?i1 pq = ?adm2 @ drop ?i3 pq"
    by (simp add: arrived_drop)
  finally have d: "drop ?i pq = ?adm1 @ ?adm2 @ drop ?i3 pq" .
  have "pending pq s = (r_readyQueue s @ ?adm1) @ ?adm2 @ drop ?i3 pq"
    unfolding pending_def by (subst d) simp
  then have pend: "pending pq s = cur # rest @ ?adm2 @ drop ?i3 pq"
    unfolding run by simp
  have pend': "pending pq ?s' = rest @ ?adm2 @ ?requeue @ drop ?i3 pq"
    unfolding pending_def body by simp
  have pos: "\<forall>q \<in> set (pending pq s). 0 < remainingTime q"
    using inv by (simp add: rr_inv_def)
  then have cur_pos: "0 < remainingTime cur"
    by (simp add: pend)
  with tq have e: "0 < ?e" "?e \<le> remainingTime cur" by simp_all
  have started: "arrivalTime q + (burstTime q - remainingTime q) \<le> ?t"
    if "q \<in> set (cur # rest)" for q
  proof -
    from that run have "q \<in> set (r_readyQueue s) \<or> q \<in> set ?adm1"
      by (metis Un_iff set_append)
    then show ?thesis
    proof
      assume "q \<in> set (r_readyQueue s)"
      with inv show ?thesis by (simp add: rr_inv_def)
    next
      assume a: "q \<in> set ?adm1"
      then have "arrivalTime q \<le> ?t" by (rule arrived_le)
      moreover from a fresh have "remainingTime q = burstTime q"
        by (auto dest: arrived_set)
      ultimately show ?thesis by simp
    qed
  qed
  have a: "r_processIndex ?s' \<le> length pq"
    using i3 by (simp add: body)
  have b1: "\<forall>q \<in> set (pending pq ?s'). 0 < remainingTime q"
    using pos unfolding pend pend' by auto
  have b2: "\<forall>q \<in> set (r_readyQueue ?s').
      arrivalTime q + (burstTime q - remainingTime q) \<le> r_currentTime ?s'"
  proof
    fix q
    assume "q \<in> set (r_readyQueue ?s')"
    then consider "q \<in> set rest" | "q \<in> set ?adm2"
      | "0 < remainingTime cur - ?e" "q = ?ran"
      unfolding body by (auto split: if_splits)
    then show "arrivalTime q + (burstTime q - remainingTime q) \<le> r_currentTime ?s'"
    proof cases
      case 1
      with started [of q] e(1) show ?thesis unfolding body(2) by simp linarith
    next
      case 2
      then have "arrivalTime q \<le> ?t + ?e" by (rule arrived_le)
      moreover from 2 fresh have "remainingTime q = burstTime q"
        by (auto dest: arrived_set)
      ultimately show ?thesis unfolding body(2) by linarith
    next
      case 3
      from started [of cur] have "arrivalTime cur + (burstTime cur - remainingTime cur) \<le> ?t"
        by simp
      then show ?thesis unfolding body(2) 3(2) by simp
    qed
  qed
  have c: "timeline_upto (r_currentTime ?s') (r_executionOrder ?s')"
    unfolding body
    using inv e timeline_upto_snoc [of ?t "r_executionOrder s" ?t "?t + ?e" "id' cur"]
    by (simp add: rr_inv_def)
  have eo': "r_executionOrder ?s' = r_executionOrder s @
      [\<lparr>processId = id' cur, startTime = ?t, endTime = ?t + ?e\<rparr>]"
    by (rule body(1))
  have old: "\<forall>m \<in> set (r_processMetrics s). metrics_ok m \<and> completes_at (r_executionOrder ?s') m"
    using inv unfolding eo' by (simp add: rr_inv_def completes_at_append)
  have dm: "\<forall>m \<in> set (r_processMetrics ?s').
      metrics_ok m \<and> completes_at (r_executionOrder ?s') m"
  proof (cases "0 < remainingTime cur - ?e")
    case True
    with old show ?thesis by (simp add: body(5))
  next
    case False
    let ?m = "\<lparr>id' = id' cur, arrivalTime = arrivalTime cur, burstTime = burstTime cur,
        priority = priority cur, completionTime = ?t + ?e,
        turnaroundTime = ?t + ?e - arrivalTime cur,
        waitingTime = ?t + ?e - arrivalTime cur - burstTime cur\<rparr>"
    from False e have "?e = remainingTime cur" by simp
    with started [of cur] cur_pos have "metrics_ok ?m"
      by (simp add: metrics_ok_def)
    moreover have "completes_at (r_executionOrder ?s') ?m"
      unfolding eo' by (simp add: completes_at_def)
    ultimately show ?thesis
      using old False by (simp add: body(5))
  qed
  have ms: "mset (map Process.truncate (pending pq ?s')) +
      mset (map Process.truncate (r_processMetrics ?s')) = mset (map Process.truncate pq)"
  proof -
    have "mset (map Process.truncate (pending pq ?s')) +
        mset (map Process.truncate (r_processMetrics ?s'))
      = mset (map Process.truncate (pending pq s)) + mset (map Process.truncate (r_processMetrics s))"
      unfolding pend pend' body by (simp add: Process.truncate_def)
    with inv show ?thesis by (simp add: rr_inv_def)
  qed
  show "rr_inv pq ?s'"
    unfolding rr_inv_def using a b1 b2 c dm ms by blast
  have nonneg: "0 \<le> sum_list (map remainingTime (rest @ ?adm2 @ drop ?i3 pq))"
    using pos unfolding pend by (intro sum_list_pos_nonneg) simp
  have "sum_list (map remainingTime (pending pq ?s')) < sum_list (map remainingTime (pending pq s))"
    unfolding pend pend' using e cur_pos by simp
  moreover have "0 < sum_list (map remainingTime (pending pq s))"
    unfolding pend using nonneg cur_pos by simp
  moreover have "nat (Max (arrivalTime ` set pq) - r_currentTime ?s')
      \<le> nat (Max (arrivalTime ` set pq) - ?t)"
    using e(1) unfolding body(2) by linarith
  ultimately show "rr_measure pq ?s' < rr_measure pq s"
    unfolding rr_measure_def by linarith
qed

lemma rr_pending_run_exact:
  assumes range: "\<forall>q \<in> set pq. 0 \<le> arrivalTime q \<and> 0 \<le> burstTime q \<and>
        arrivalTime q + burstTime q \<le> 2 ^ 53 \<and>
        arrivalTime q + sum_list (map burstTime pq) \<le> 2 ^ 53"
    and tq: "0 < tq" and inv: "rr_inv pq s" and safe: "rr_safe pq s"
    and run: "r_readyQueue s @ arrived pq (r_processIndex s) (r_currentTime s) = cur # rest"
  shows "\<exists>others1 others2.
           pending pq s = cur # others1 @ others2 \<and>
           pending pq (rr_body pq tq s) = others1 @
             (if 0 < remainingTime cur - min tq (remainingTime cur)
              then [cur\<lparr>remainingTime := remainingTime cur - min tq (remainingTime cur)\<rparr>] else [])
             @ others2"
proof -
  let ?t = "r_currentTime s"
  let ?i = "r_processIndex s"
  let ?adm1 = "arrived pq ?i ?t"
  let ?i1 = "?i + length ?adm1"
  let ?e = "min tq (remainingTime cur)"
  let ?adm2 = "arrived pq ?i1 (?t + ?e)"
  let ?i3 = "?i1 + length ?adm2"
  note body = rr_body_run_exact [OF range tq inv safe run]
  have "drop ?i pq = ?adm1 @ drop ?i1 pq"
    by (simp add: arrived_drop)
  also have "drop ?i1 pq = ?adm2 @ drop ?i3 pq"
    by (simp add: arrived_drop)
  finally have d: "drop ?i pq = ?adm1 @ ?adm2 @ drop ?i3 pq" .
  have "pending pq s = (r_readyQueue s @ ?adm1) @ ?adm2 @ drop ?i3 pq"
    unfolding pending_def by (subst d) simp
  then have "pending pq s = cur # (rest @ ?adm2) @ drop ?i3 pq"
    unfolding run by simp
  moreover have "pending pq (rr_body pq tq s) = (rest @ ?adm2) @
      (if 0 < remainingTime cur - ?e then [cur\<lparr>remainingTime := remainingTime cur - ?e\<rparr>] else [])
      @ drop ?i3 pq"
    unfolding pending_def body by simp
  ultimately show ?thesis by blast
qed

lemma rr_run_safe:
  assumes range: "\<forall>q \<in> set pq. 0 \<le> arrivalTime q \<and> 0 \<le> burstTime q \<and>
        arrivalTime q + burstTime q \<le> 2 ^ 53 \<and>
        arrivalTime q + sum_list (map burstTime pq) \<le> 2 ^ 53"
    and tq: "0 < tq" and inv: "rr_inv pq s" and safe: "rr_safe pq s"
    and run: "r_readyQueue s @ arrived pq (r_processIndex s) (r_currentTime s) = cur # rest"
  shows "rr_safe pq (rr_body pq tq s)"
proof -
  let ?t = "r_currentTime s"
  let ?e = "min tq (remainingTime cur)"
  from rr_pending_run_exact [OF range tq inv safe run] obtain o1 o2 where
    pend: "pending pq s = cur # o1 @ o2" and
    pend': "pending pq (rr_body pq tq s) = o1 @
      (if 0 < remainingTime cur - ?e then [cur\<lparr>remainingTime := remainingTime cur - ?e\<rparr>] else [])
      @ o2"
    by blast
  from inv have "\<forall>q \<in> set (pending pq s). 0 < remainingTime q"
    by (simp add: rr_inv_def)
  then have cur_pos: "0 < remainingTime cur" by (simp add: pend)
  with tq have e: "0 < ?e" "?e \<le> remainingTime cur" by simp_all
  from safe have t: "0 \<le> ?t"
    and up: "?t + (remainingTime cur + sum_list (map remainingTime (o1 @ o2))) \<le> 2 ^ 53"
    unfolding rr_safe_def pend by simp_all
  have "sum_list (map remainingTime (pending pq (rr_body pq tq s))) =
      remainingTime cur - ?e + sum_list (map remainingTime (o1 @ o2))"
    unfolding pend' using e by simp
  then show ?thesis
    unfolding rr_safe_def rr_body_run_exact(2) [OF range tq inv safe run] using up t e by simp
qed

lemma rr_step:
  assumes fresh: "\<forall>q \<in> set pq. remainingTime q = burstTime q \<and> 0 < burstTime q"
    and range: "\<forall>q \<in> set pq. 0 \<le> arrivalTime q \<and> 0 \<le> burstTime q \<and>
        arrivalTime q + burstTime q \<le> 2 ^ 53 \<and>
        arrivalTime q + sum_list (map burstTime pq) \<le> 2 ^ 53"
    and tq: "0 < tq" and inv: "rr_inv pq s" and safe: "rr_safe pq s" and cond: "rr_cond pq s"
  shows "rr_inv pq (rr_body pq tq s) \<and> rr_safe pq (rr_body pq tq s) \<and>
         rr_measure pq (rr_body pq tq s) < rr_measure pq s"
proof (cases "r_readyQueue s @ arrived pq (r_processIndex s) (r_currentTime s)")
  case Nil
  with rr_idle_step [OF fresh range inv safe cond] rr_body_idle_exact(2) [OF fresh range safe cond]
  show ?thesis by simp
next
  case (Cons cur rest)
  from fresh have f: "\<forall>q \<in> set pq. remainingTime q = burstTime q" by simp
  from Cons rr_run_step [OF f range tq inv safe] rr_run_safe [OF range tq inv safe]
  show ?thesis by simp
qed

lemma rr_ids_distinct:
  assumes inv: "rr_inv pq s" and d: "distinct (map id' pq)"
  shows "distinct (map id' (pending pq s) @ map id' (r_processMetrics s))"
proof -
  from inv have "mset (map Process.truncate (pending pq s)) +
      mset (map Process.truncate (r_processMetrics s)) = mset (map Process.truncate pq)"
    by (simp add: rr_inv_def)
  then have "image_mset id' (mset (map Process.truncate (pending pq s)) +
      mset (map Process.truncate (r_processMetrics s))) = image_mset id' (mset (map Process.truncate pq))"
    by simp
  then have "mset (map id' (pending pq s) @ map id' (r_processMetrics s)) = mset (map id' pq)"
    by (simp add: image_mset.compositionality comp_def)
  from mset_eq_imp_distinct_iff [OF this] d show ?thesis by simp
qed

lemma rr_cpu_step:
  assumes range: "\<forall>q \<in> set pq. 0 \<le> arrivalTime q \<and> 0 \<le> burstTime q \<and>
        arrivalTime q + burstTime q \<le> 2 ^ 53 \<and>
        arrivalTime q + sum_list (map burstTime pq) \<le> 2 ^ 53"
    and tq: "0 < tq" and inv: "rr_inv pq s" and safe: "rr_safe pq s"
    and cpu: "rr_cpu pq s" and d: "distinct (map id' pq)"
  shows "rr_cpu pq (rr_body pq tq s)"
proof (cases "r_readyQueue s @ arrived pq (r_processIndex s) (r_currentTime s)")
  case Nil
  then have "rr_body pq tq s = s\<lparr>r_currentTime := js_add (r_currentTime s) 1\<rparr>"
    by (rule rr_body_idle)
  with cpu show ?thesis by (simp add: rr_cpu_def pending_def)
next
  case (Cons cur rest)
  let ?s' = "rr_body pq tq s"
  let ?e = "min tq (remainingTime cur)"
  let ?ran = "cur\<lparr>remainingTime := remainingTime cur - ?e\<rparr>"
  let ?eo = "r_executionOrder s"
  note body = rr_body_run_exact [OF range tq inv safe Cons]
  from inv have i: "r_processIndex s \<le> length pq" by (simp add: rr_inv_def)
  from rr_pending_run_exact [OF range tq inv safe Cons] obtain o1 o2 where
    pend: "pending pq s = cur # o1 @ o2" and
    pend': "pending pq ?s' = o1 @ (if 0 < remainingTime cur - ?e then [?ran] else []) @ o2"
    by blast
  note dist = rr_ids_distinct [OF inv d]
  have other: "id' q \<noteq> id' cur" if "q \<in> set o1 \<union> set o2" for q
    using dist that unfolding pend by (auto simp: image_iff)
  have finished: "id' m \<noteq> id' cur" if "m \<in> set (r_processMetrics s)" for m
    using dist that unfolding pend by (auto simp: image_iff)
  have step: "cpu_time (r_executionOrder ?s') k = cpu_time ?eo k + (if k = id' cur then ?e else 0)"
    for k
    unfolding body by (auto simp: cpu_time_snoc)
  from cpu have c_cur: "cpu_time ?eo (id' cur) = burstTime cur - remainingTime cur"
    and c_other: "\<And>q. q \<in> set o1 \<union> set o2 \<Longrightarrow> cpu_time ?eo (id' q) = burstTime q - remainingTime q"
    and c_done: "\<And>m. m \<in> set (r_processMetrics s) \<Longrightarrow> cpu_time ?eo (id' m) = burstTime m"
    unfolding rr_cpu_def pend by auto
  have p1: "cpu_time (r_executionOrder ?s') (id' q) = burstTime q - remainingTime q"
    if "q \<in> set (pending pq ?s')" for q
  proof -
    from that consider "q \<in> set o1 \<union> set o2" | "q = ?ran"
      unfolding pend' by (auto split: if_splits)
    then show ?thesis
    proof cases
      case 1
      with other [of q] c_other [of q] show ?thesis by (simp add: step)
    next
      case 2
      with c_cur show ?thesis by (simp add: step)
    qed
  qed
  have p2: "cpu_time (r_executionOrder ?s') (id' m) = burstTime m"
    if "m \<in> set (r_processMetrics ?s')" for m
  proof -
    from that consider "m \<in> set (r_processMetrics s)"
      | "\<not> 0 < remainingTime cur - ?e" "id' m = id' cur" "burstTime m = burstTime cur"
      unfolding body by (auto split: if_splits)
    then show ?thesis
    proof cases
      case 1
      with finished [of m] c_done [of m] show ?thesis by (simp add: step)
    next
      case 2
      have "?e \<le> remainingTime cur" by simp
      with 2(1) have "?e = remainingTime cur" by linarith
      with 2 c_cur show ?thesis by (simp add: step)
    qed
  qed
  show ?thesis
    unfolding rr_cpu_def using p1 p2 by blast
qed

lemma rr_init_inv:
  assumes "\<forall>q \<in> set pq. remainingTime q = burstTime q \<and> 0 < burstTime q"
  shows "rr_inv pq rr_init" and "rr_cpu pq rr_init"
  using assms by (simp_all add: rr_inv_def rr_cpu_def rr_init_def pending_def)

lemma rr_loop_result:
  assumes fresh: "\<forall>q \<in> set pq. remainingTime q = burstTime q \<and> 0 < burstTime q"
    and range: "\<forall>q \<in> set pq. 0 \<le> arrivalTime q \<and> 0 \<le> burstTime q \<and>
        arrivalTime q + burstTime q \<le> 2 ^ 53 \<and>
        arrivalTime q + sum_list (map burstTime pq) \<le> 2 ^ 53"
    and total: "sum_list (map burstTime pq) \<le> 2 ^ 53"
    and tq: "0 < tq"
  shows "\<exists>s. rr_loop pq tq rr_init = Some s \<and> rr_inv pq s \<and> pending pq s = [] \<and>
           (distinct (map id' pq) \<longrightarrow> rr_cpu pq s)"
proof -
  let ?I = "\<lambda>s. rr_inv pq s \<and> rr_safe pq s \<and> (distinct (map id' pq) \<longrightarrow> rr_cpu pq s)"
  from fresh have f: "\<forall>q \<in> set pq. remainingTime q = burstTime q"
    by simp
  then have meq: "map remainingTime pq = map burstTime pq"
    by (intro map_cong) auto
  have "pending pq rr_init = pq" "r_currentTime rr_init = 0"
    by (simp_all add: rr_init_def pending_def)
  then have "rr_safe pq rr_init"
    unfolding rr_safe_def meq using total by (simp add: meq)
  then have init: "?I rr_init"
    using rr_init_inv [OF fresh] by simp
  have step: "?I (rr_body pq tq s) \<and> rr_measure pq (rr_body pq tq s) < rr_measure pq s"
    if i: "?I s" and c: "rr_cond pq s" for s
  proof -
    from i have inv: "rr_inv pq s" and safe: "rr_safe pq s" by simp_all
    from rr_step [OF fresh range tq inv safe c]
    have "rr_inv pq (rr_body pq tq s)" "rr_safe pq (rr_body pq tq s)"
      "rr_measure pq (rr_body pq tq s) < rr_measure pq s"
      by simp_all
    moreover have "distinct (map id' pq) \<longrightarrow> rr_cpu pq (rr_body pq tq s)"
      using i rr_cpu_step [OF range tq inv safe] by blast
    ultimately show ?thesis by blast
  qed
  from rr_loop_total [of ?I rr_init pq tq "rr_measure pq", OF init step]
  obtain s where s: "rr_loop pq tq rr_init = Some s" "rr_inv pq s"
    "distinct (map id' pq) \<longrightarrow> rr_cpu pq s" "\<not> rr_cond pq s"
    by blast
  from s(2,4) have "pending pq s = []"
    by (simp add: rr_cond_def pending_def rr_inv_def)
  with s show ?thesis by blast
qed

lemma scheduleRoundRobin_total:
  assumes pos: "\<forall>p \<in> set ps. 0 \<le> arrivalTime p \<and> 0 < burstTime p"
    and safe: "within_safe_range ps" and tq: "0 < tq"
  shows "\<exists>r. scheduleRoundRobin ps tq = Some r \<and>
           (\<exists>t. timeline_upto t (executionOrder r)) \<and>
           metrics_sound ps r \<and>
           (distinct (map id' ps) \<longrightarrow>
              (\<forall>p \<in> set ps. cpu_time (executionOrder r) (id' p) = burstTime p))"
proof -
  let ?pq = "map withRemaining (sort_key arrivalTime ps)"
  have fresh: "\<forall>q \<in> set ?pq. remainingTime q = burstTime q \<and> 0 < burstTime q"
    using pos by simp
  have tr: "map Process.truncate ?pq = sort_key arrivalTime ps"
    by (simp add: comp_def)
  have ids: "map id' ?pq = map id' (sort_key arrivalTime ps)"
    by (simp add: comp_def)
  have "map burstTime ?pq = map burstTime (sort_key arrivalTime ps)"
    by (simp add: comp_def)
  then have sum: "sum_list (map burstTime ?pq) = sum_list (map burstTime ps)"
    by (simp only: sum_list_sort_key)
  have nn: "\<forall>p \<in> set ps. 0 \<le> burstTime p"
    using pos by (auto intro: less_imp_le)
  have range: "\<forall>q \<in> set ?pq. 0 \<le> arrivalTime q \<and> 0 \<le> burstTime q \<and>
      arrivalTime q + burstTime q \<le> 2 ^ 53 \<and>
      arrivalTime q + sum_list (map burstTime ?pq) \<le> 2 ^ 53"
    unfolding sum
  proof
    fix q
    assume "q \<in> set ?pq"
    then obtain p where p: "p \<in> set ps" "q = withRemaining p" by auto
    from elem_le_sum_list [OF nn p(1)] have "burstTime p \<le> sum_list (map burstTime ps)" .
    moreover from safe p(1) have "arrivalTime p + sum_list (map burstTime ps) \<le> 2 ^ 53"
      by (simp add: within_safe_range_def)
    ultimately show "0 \<le> arrivalTime q \<and> 0 \<le> burstTime q \<and>
        arrivalTime q + burstTime q \<le> 2 ^ 53 \<and>
        arrivalTime q + sum_list (map burstTime ps) \<le> 2 ^ 53"
      using pos nn p by simp
  qed
  have total: "sum_list (map burstTime ?pq) \<le> 2 ^ 53"
  proof (cases ps)
    case Nil
    then show ?thesis by simp
  next
    case (Cons p ps')
    with pos safe have "0 \<le> arrivalTime p" "arrivalTime p + sum_list (map burstTime ps) \<le> 2 ^ 53"
      by (simp_all add: within_safe_range_def)
    then show ?thesis unfolding sum by simp
  qed
  from rr_loop_result [OF fresh range total tq] obtain s where
    s: "rr_loop ?pq tq rr_init = Some s" and inv: "rr_inv ?pq s" and e: "pending ?pq s = []"
    and cpu: "distinct (map id' ?pq) \<longrightarrow> rr_cpu ?pq s"
    by blast
  let ?r = "calculateAverages (r_executionOrder s) (r_processMetrics s)"
  have r: "scheduleRoundRobin ps tq = Some ?r"
    using s by (simp add: scheduleRoundRobin_def)
  have t: "\<exists>t. timeline_upto t (executionOrder ?r)"
    using inv by (auto simp: rr_inv_def)
  have m: "\<forall>m \<in> set (processMetrics ?r). metrics_ok m \<and> completes_at (executionOrder ?r) m"
    using inv by (simp add: rr_inv_def)
  have "mset (map Process.truncate (r_processMetrics s)) = mset (map Process.truncate ?pq)"
    using inv e by (simp add: rr_inv_def)
  then have all: "mset (map Process.truncate (processMetrics ?r)) = mset ps"
    unfolding tr by simp
  from all m have sound: "metrics_sound ps ?r"
    by (simp add: metrics_sound_def)
  have c: "\<forall>p \<in> set ps. cpu_time (executionOrder ?r) (id' p) = burstTime p"
    if d: "distinct (map id' ps)"
  proof
    fix p
    assume "p \<in> set ps"
    moreover from all have "set (map Process.truncate (processMetrics ?r)) = set ps"
      by (rule mset_eq_setD)
    ultimately have "p \<in> Process.truncate ` set (r_processMetrics s)"
      by simp
    then obtain m where mm: "m \<in> set (r_processMetrics s)" "Process.truncate m = p"
      by (auto simp: image_iff)
    have "distinct (map id' ?pq)"
      unfolding ids using d mset_eq_imp_distinct_iff [of "map id' (sort_key arrivalTime ps)" "map id' ps"]
      by simp
    with cpu mm(1) have "cpu_time (r_executionOrder s) (id' m) = burstTime m"
      by (simp add: rr_cpu_def)
    moreover from mm(2) have "id' m = id' p" "burstTime m = burstTime p"
      by (auto simp: Process.truncate_def)
    ultimately show "cpu_time (executionOrder ?r) (id' p) = burstTime p"
      by simp
  qed
  from r t sound c show ?thesis by blast
qed

text \<open>With a quantum that is not positive, no process ever leaves the pending ones.\<close>

lemma rr_diverge_step:
  assumes tq: "tq \<le> 0"
    and j: "r_processIndex s \<le> length pq \<and> pending pq s \<noteq> [] \<and>
            (\<forall>q \<in> set (pending pq s). 0 < remainingTime q)"
  shows "rr_cond pq s \<and>
         (r_processIndex (rr_body pq tq s) \<le> length pq \<and> pending pq (rr_body pq tq s) \<noteq> [] \<and>
          (\<forall>q \<in> set (pending pq (rr_body pq tq s)). 0 < remainingTime q))"
proof -
  from j have c: "rr_cond pq s"
    by (auto simp: rr_cond_def pending_def)
  have "r_processIndex (rr_body pq tq s) \<le> length pq \<and> pending pq (rr_body pq tq s) \<noteq> [] \<and>
      (\<forall>q \<in> set (pending pq (rr_body pq tq s)). 0 < remainingTime q)"
  proof (cases "r_readyQueue s @ arrived pq (r_processIndex s) (r_currentTime s)")
    case Nil
    then have "rr_body pq tq s = s\<lparr>r_currentTime := js_add (r_currentTime s) 1\<rparr>"
      by (rule rr_body_idle)
    with j show ?thesis by (simp add: pending_def)
  next
    case (Cons cur rest)
    let ?e = "min tq (remainingTime cur)"
    let ?rem = "js_sub (remainingTime cur) ?e"
    note body = rr_body_run [OF Cons, of tq]
    from j have i: "r_processIndex s \<le> length pq" by simp
    from rr_pending_run [OF Cons, of tq] obtain o1 o2 where
      pend: "pending pq s = cur # o1 @ o2" and
      pend': "pending pq (rr_body pq tq s) =
        o1 @ (if 0 < ?rem then [cur\<lparr>remainingTime := ?rem\<rparr>] else []) @ o2"
      by blast
    from j have pos: "0 < remainingTime cur" by (simp add: pend)
    with tq have "0 < remainingTime cur - ?e" by simp
    then have again: "0 < ?rem"
      unfolding js_sub_def by (rule js_double_pos)
    have "r_processIndex (rr_body pq tq s) \<le> length pq"
      unfolding body using arrived_length [OF arrived_length [OF i]] by simp
    moreover from again have pend'': "pending pq (rr_body pq tq s) =
        o1 @ [cur\<lparr>remainingTime := ?rem\<rparr>] @ o2"
      unfolding pend' by (simp only: if_True)
    then have "pending pq (rr_body pq tq s) \<noteq> []"
      by simp
    moreover have "\<forall>q \<in> set (pending pq (rr_body pq tq s)). 0 < remainingTime q"
      using j again unfolding pend pend'' by auto
    ultimately show ?thesis by blast
  qed
  with c show ?thesis by blast
qed

lemma scheduleRoundRobin_diverges:
  assumes ne: "ps \<noteq> []" and burst: "\<forall>p \<in> set ps. 0 < burstTime p" and tq: "tq \<le> 0"
  shows "scheduleRoundRobin ps tq = None"
proof -
  let ?pq = "map withRemaining (sort_key arrivalTime ps)"
  let ?J = "\<lambda>s. r_processIndex s \<le> length ?pq \<and> pending ?pq s \<noteq> [] \<and>
      (\<forall>q \<in> set (pending ?pq s). 0 < remainingTime q)"
  have "?pq \<noteq> []"
    using ne by (metis length_0_conv length_map length_sort)
  then have init: "?J rr_init"
    using burst by (simp add: rr_init_def pending_def)
  have "rr_loop ?pq tq rr_init = None"
    by (rule rr_loop_diverges [of ?J, OF init]) (rule rr_diverge_step [OF tq])
  then show ?thesis
    by (simp add: scheduleRoundRobin_def)
qed

section \<open>The invariants of a result\<close>

lemma js_add_at_2_53 [simp]: "js_add 9007199254740992 1 = 9007199254740992"
  by (simp add: js_add_def js_double_at_2_53_plus_1)

lemma preconditions_example3: "preconditions example3 \<and> within_safe_range example3"
  by (simp add: preconditions_def within_safe_range_def example3_def)

text \<open>
  C1, within the safe range. For a non-empty process list with unique ids, arrival times at
  least 0 and burst times above 0 (and, for round robin, a quantum above 0), whose latest
  arrival plus all burst times is at most \<open>2 ^ 53\<close>, each of \<open>scheduleFCFS\<close>, \<open>scheduleSJF\<close>,
  \<open>schedulePriority\<close> and \<open>scheduleRoundRobin\<close> returns, and in its result the lengths of the
  blocks of each process id add up to the burst time of that process, no two blocks of
  \<open>executionOrder\<close> overlap, and the blocks are listed with start times that never decrease.
\<close>

theorem timeline_conserves_burst_times:
  assumes "preconditions ps" and "within_safe_range ps"
  shows "timeline_conserved ps (scheduleFCFS ps) \<and>
         (\<exists>r. scheduleSJF ps = Some r \<and> timeline_conserved ps r) \<and>
         (\<exists>r. schedulePriority ps = Some r \<and> timeline_conserved ps r) \<and>
         (0 < tq \<longrightarrow> (\<exists>r. scheduleRoundRobin ps tq = Some r \<and> timeline_conserved ps r))"
proof -
  have rr: "\<exists>r. scheduleRoundRobin ps tq = Some r \<and> timeline_conserved ps r" if tq: "0 < tq"
  proof -
    from assms(1) have pos: "\<forall>p \<in> set ps. 0 \<le> arrivalTime p \<and> 0 < burstTime p"
      and d: "distinct (map id' ps)"
      by (auto simp: preconditions_def)
    from scheduleRoundRobin_total [OF pos assms(2) tq] obtain r t where
      "scheduleRoundRobin ps tq = Some r" "timeline_upto t (executionOrder r)"
      "distinct (map id' ps) \<longrightarrow> (\<forall>p \<in> set ps. cpu_time (executionOrder r) (id' p) = burstTime p)"
      by blast
    with d timeline_upto_non_overlapping timeline_upto_sorted show ?thesis
      by (auto simp: timeline_conserved_def)
  qed
  from scheduleSJF_total [OF assms] obtain r1 where
    "scheduleSJF ps = Some r1" "timeline_conserved ps r1" by blast
  then have sjf: "\<exists>r. scheduleSJF ps = Some r \<and> timeline_conserved ps r" by blast
  from schedulePriority_total [OF assms] obtain r2 where
    "schedulePriority ps = Some r2" "timeline_conserved ps r2" by blast
  then have prio: "\<exists>r. schedulePriority ps = Some r \<and> timeline_conserved ps r" by blast
  from rr have rr': "0 < tq \<longrightarrow> (\<exists>r. scheduleRoundRobin ps tq = Some r \<and> timeline_conserved ps r)"
    by (rule impI)
  show ?thesis
    by (intro conjI fcfs_conserved [OF assms] sjf prio rr')
qed

theorem timeline_conserves_burst_times_witness:
  "preconditions example3 \<and> within_safe_range example3 \<and>
   timeline_conserved example3 (scheduleFCFS example3) \<and>
   (\<exists>r. scheduleSJF example3 = Some r \<and> timeline_conserved example3 r) \<and>
   (\<exists>r. schedulePriority example3 = Some r \<and> timeline_conserved example3 r) \<and>
   (\<exists>r. scheduleRoundRobin example3 2 = Some r \<and> timeline_conserved example3 r)"
proof -
  have p: "preconditions example3" and s: "within_safe_range example3"
    using preconditions_example3 by simp_all
  have q: "(0::int) < 2" by simp
  note m = timeline_conserves_burst_times [OF p s, of 2]
  from m have a: "timeline_conserved example3 (scheduleFCFS example3)"
    by (rule conjunct1)
  from m have b: "\<exists>r. scheduleSJF example3 = Some r \<and> timeline_conserved example3 r"
    by (rule conjunct2 [THEN conjunct1])
  from m have c: "\<exists>r. schedulePriority example3 = Some r \<and> timeline_conserved example3 r"
    by (rule conjunct2 [THEN conjunct2, THEN conjunct1])
  from m have "0 < (2::int) \<longrightarrow>
      (\<exists>r. scheduleRoundRobin example3 2 = Some r \<and> timeline_conserved example3 r)"
    by (rule conjunct2 [THEN conjunct2, THEN conjunct2])
  then have d: "\<exists>r. scheduleRoundRobin example3 2 = Some r \<and> timeline_conserved example3 r"
    using q by (rule mp)
  show ?thesis
    by (intro conjI p s a b c d)
qed

text \<open>
  Beyond the safe range the blocks of a process need not add up to its burst time. On
  P1(0, \<open>2 ^ 53\<close>), P2(0, 1), which meets the preconditions, first come, first served ends P1 at
  \<open>2 ^ 53\<close> and starts P2 there; \<open>2 ^ 53 + 1\<close> is not a double and the sum is \<open>2 ^ 53\<close>, so that the
  block of P2 is empty, for a burst time of 1.
\<close>

theorem fcfs_block_is_empty_past_2_53:
  "preconditions long_then_short \<and>
   executionOrder (scheduleFCFS long_then_short) =
     [\<lparr>processId = ''P1'', startTime = 0, endTime = 9007199254740992\<rparr>,
      \<lparr>processId = ''P2'', startTime = 9007199254740992, endTime = 9007199254740992\<rparr>] \<and>
   cpu_time (executionOrder (scheduleFCFS long_then_short)) ''P2'' = 0 \<and>
   \<not> timeline_conserved long_then_short (scheduleFCFS long_then_short)"
proof -
  have p: "preconditions long_then_short"
    by (simp add: preconditions_def long_then_short_def)
  have eo: "executionOrder (scheduleFCFS long_then_short) =
     [\<lparr>processId = ''P1'', startTime = 0, endTime = 9007199254740992\<rparr>,
      \<lparr>processId = ''P2'', startTime = 9007199254740992, endTime = 9007199254740992\<rparr>]"
    by (simp add: scheduleFCFS_timeline long_then_short_def js_add_exact)
  have c: "cpu_time (executionOrder (scheduleFCFS long_then_short)) ''P2'' = 0"
    unfolding eo by (simp add: cpu_time_def)
  have n: "\<not> timeline_conserved long_then_short (scheduleFCFS long_then_short)"
  proof
    assume "timeline_conserved long_then_short (scheduleFCFS long_then_short)"
    then have "\<forall>p \<in> set long_then_short.
        cpu_time (executionOrder (scheduleFCFS long_then_short)) (id' p) = burstTime p"
      by (simp add: timeline_conserved_def)
    then have "cpu_time (executionOrder (scheduleFCFS long_then_short)) ''P2'' = 1"
      by (simp add: long_then_short_def)
    with c show False by simp
  qed
  show ?thesis
    by (intro conjI p eo c n)
qed

lemma metrics_example3:
  "processMetrics (scheduleFCFS example3) =
     [\<lparr>id' = ''P1'', arrivalTime = 0, burstTime = 4, priority = Some 2,
       completionTime = 4, turnaroundTime = 4, waitingTime = 0\<rparr>,
      \<lparr>id' = ''P2'', arrivalTime = 1, burstTime = 3, priority = Some 1,
       completionTime = 7, turnaroundTime = 6, waitingTime = 3\<rparr>,
      \<lparr>id' = ''P3'', arrivalTime = 2, burstTime = 1, priority = Some 3,
       completionTime = 8, turnaroundTime = 6, waitingTime = 5\<rparr>]"
  "map_option processMetrics (scheduleSJF example3) = Some
     [\<lparr>id' = ''P1'', arrivalTime = 0, burstTime = 4, priority = Some 2,
       completionTime = 4, turnaroundTime = 4, waitingTime = 0\<rparr>,
      \<lparr>id' = ''P3'', arrivalTime = 2, burstTime = 1, priority = Some 3,
       completionTime = 5, turnaroundTime = 3, waitingTime = 2\<rparr>,
      \<lparr>id' = ''P2'', arrivalTime = 1, burstTime = 3, priority = Some 1,
       completionTime = 8, turnaroundTime = 7, waitingTime = 4\<rparr>]"
  "map_option processMetrics (schedulePriority example3) = Some
     [\<lparr>id' = ''P1'', arrivalTime = 0, burstTime = 4, priority = Some 2,
       completionTime = 4, turnaroundTime = 4, waitingTime = 0\<rparr>,
      \<lparr>id' = ''P2'', arrivalTime = 1, burstTime = 3, priority = Some 1,
       completionTime = 7, turnaroundTime = 6, waitingTime = 3\<rparr>,
      \<lparr>id' = ''P3'', arrivalTime = 2, burstTime = 1, priority = Some 3,
       completionTime = 8, turnaroundTime = 6, waitingTime = 5\<rparr>]"
  "map_option processMetrics (scheduleRoundRobin example3 2) = Some
     [\<lparr>id' = ''P3'', arrivalTime = 2, burstTime = 1, priority = Some 3,
       completionTime = 5, turnaroundTime = 3, waitingTime = 2\<rparr>,
      \<lparr>id' = ''P1'', arrivalTime = 0, burstTime = 4, priority = Some 2,
       completionTime = 7, turnaroundTime = 7, waitingTime = 3\<rparr>,
      \<lparr>id' = ''P2'', arrivalTime = 1, burstTime = 3, priority = Some 1,
       completionTime = 8, turnaroundTime = 7, waitingTime = 4\<rparr>]"
proof -
  show "processMetrics (scheduleFCFS example3) =
     [\<lparr>id' = ''P1'', arrivalTime = 0, burstTime = 4, priority = Some 2,
       completionTime = 4, turnaroundTime = 4, waitingTime = 0\<rparr>,
      \<lparr>id' = ''P2'', arrivalTime = 1, burstTime = 3, priority = Some 1,
       completionTime = 7, turnaroundTime = 6, waitingTime = 3\<rparr>,
      \<lparr>id' = ''P3'', arrivalTime = 2, burstTime = 1, priority = Some 3,
       completionTime = 8, turnaroundTime = 6, waitingTime = 5\<rparr>]"
    by (simp add: scheduleFCFS_timeline example3_def js_add_exact js_sub_exact)
  show "map_option processMetrics (scheduleSJF example3) = Some
     [\<lparr>id' = ''P1'', arrivalTime = 0, burstTime = 4, priority = Some 2,
       completionTime = 4, turnaroundTime = 4, waitingTime = 0\<rparr>,
      \<lparr>id' = ''P3'', arrivalTime = 2, burstTime = 1, priority = Some 3,
       completionTime = 5, turnaroundTime = 3, waitingTime = 2\<rparr>,
      \<lparr>id' = ''P2'', arrivalTime = 1, burstTime = 3, priority = Some 1,
       completionTime = 8, turnaroundTime = 7, waitingTime = 4\<rparr>]"
    by (simp add: scheduleSJF_def example3_def sjf_loop.simps sjf_body_def sel_init_def
        availableProcesses_def withRemaining_def shortestJob_def run_to_completion_def
        js_add_exact js_sub_exact)
  show "map_option processMetrics (schedulePriority example3) = Some
     [\<lparr>id' = ''P1'', arrivalTime = 0, burstTime = 4, priority = Some 2,
       completionTime = 4, turnaroundTime = 4, waitingTime = 0\<rparr>,
      \<lparr>id' = ''P2'', arrivalTime = 1, burstTime = 3, priority = Some 1,
       completionTime = 7, turnaroundTime = 6, waitingTime = 3\<rparr>,
      \<lparr>id' = ''P3'', arrivalTime = 2, burstTime = 1, priority = Some 3,
       completionTime = 8, turnaroundTime = 6, waitingTime = 5\<rparr>]"
    by (simp add: schedulePriority_def example3_def priority_loop.simps priority_body_def
        sel_init_def availableProcesses_def withRemaining_def highestPriority_def
        run_to_completion_def js_add_exact js_sub_exact)
  show "map_option processMetrics (scheduleRoundRobin example3 2) = Some
     [\<lparr>id' = ''P3'', arrivalTime = 2, burstTime = 1, priority = Some 3,
       completionTime = 5, turnaroundTime = 3, waitingTime = 2\<rparr>,
      \<lparr>id' = ''P1'', arrivalTime = 0, burstTime = 4, priority = Some 2,
       completionTime = 7, turnaroundTime = 7, waitingTime = 3\<rparr>,
      \<lparr>id' = ''P2'', arrivalTime = 1, burstTime = 3, priority = Some 1,
       completionTime = 8, turnaroundTime = 7, waitingTime = 4\<rparr>]"
    by (simp add: scheduleRoundRobin_def example3_def rr_loop.simps rr_body_def rr_cond_def
        rr_init_def enqueue_arrived.simps withRemaining_def js_add_exact js_sub_exact)
qed

text \<open>
  C2, within the safe range. Under the preconditions of C1, and the latest arrival plus all
  burst times being at most \<open>2 ^ 53\<close>, each of the four scheduling functions returns, and
  \<open>processMetrics\<close> has one entry for each process, with the id, arrival time, burst time and
  priority of that process. Every entry has a waiting time of at least 0, a turnaround time of
  at least its burst time and a completion time of at least its arrival time plus its burst
  time, the turnaround time being the completion time minus the arrival time and the waiting
  time the turnaround time minus the burst time; and its completion time is the end of a block
  of its process in \<open>executionOrder\<close>. On P1(0, 4), P2(1, 3), P3(2, 1) the entries are the ones
  listed.
\<close>

theorem metrics_are_bounded:
  "(preconditions ps \<and> within_safe_range ps \<longrightarrow>
      metrics_sound ps (scheduleFCFS ps) \<and>
      (\<exists>r. scheduleSJF ps = Some r \<and> metrics_sound ps r) \<and>
      (\<exists>r. schedulePriority ps = Some r \<and> metrics_sound ps r) \<and>
      (0 < tq \<longrightarrow> (\<exists>r. scheduleRoundRobin ps tq = Some r \<and> metrics_sound ps r))) \<and>
   processMetrics (scheduleFCFS example3) =
     [\<lparr>id' = ''P1'', arrivalTime = 0, burstTime = 4, priority = Some 2,
       completionTime = 4, turnaroundTime = 4, waitingTime = 0\<rparr>,
      \<lparr>id' = ''P2'', arrivalTime = 1, burstTime = 3, priority = Some 1,
       completionTime = 7, turnaroundTime = 6, waitingTime = 3\<rparr>,
      \<lparr>id' = ''P3'', arrivalTime = 2, burstTime = 1, priority = Some 3,
       completionTime = 8, turnaroundTime = 6, waitingTime = 5\<rparr>] \<and>
   map_option processMetrics (scheduleSJF example3) = Some
     [\<lparr>id' = ''P1'', arrivalTime = 0, burstTime = 4, priority = Some 2,
       completionTime = 4, turnaroundTime = 4, waitingTime = 0\<rparr>,
      \<lparr>id' = ''P3'', arrivalTime = 2, burstTime = 1, priority = Some 3,
       completionTime = 5, turnaroundTime = 3, waitingTime = 2\<rparr>,
      \<lparr>id' = ''P2'', arrivalTime = 1, burstTime = 3, priority = Some 1,
       completionTime = 8, turnaroundTime = 7, waitingTime = 4\<rparr>] \<and>
   map_option processMetrics (schedulePriority example3) = Some
     [\<lparr>id' = ''P1'', arrivalTime = 0, burstTime = 4, priority = Some 2,
       completionTime = 4, turnaroundTime = 4, waitingTime = 0\<rparr>,
      \<lparr>id' = ''P2'', arrivalTime = 1, burstTime = 3, priority = Some 1,
       completionTime = 7, turnaroundTime = 6, waitingTime = 3\<rparr>,
      \<lparr>id' = ''P3'', arrivalTime = 2, burstTime = 1, priority = Some 3,
       completionTime = 8, turnaroundTime = 6, waitingTime = 5\<rparr>] \<and>
   map_option processMetrics (scheduleRoundRobin example3 2) = Some
     [\<lparr>id' = ''P3'', arrivalTime = 2, burstTime = 1, priority = Some 3,
       completionTime = 5, turnaroundTime = 3, waitingTime = 2\<rparr>,
      \<lparr>id' = ''P1'', arrivalTime = 0, burstTime = 4, priority = Some 2,
       completionTime = 7, turnaroundTime = 7, waitingTime = 3\<rparr>,
      \<lparr>id' = ''P2'', arrivalTime = 1, burstTime = 3, priority = Some 1,
       completionTime = 8, turnaroundTime = 7, waitingTime = 4\<rparr>]"
proof -
  have general: "metrics_sound ps (scheduleFCFS ps) \<and>
      (\<exists>r. scheduleSJF ps = Some r \<and> metrics_sound ps r) \<and>
      (\<exists>r. schedulePriority ps = Some r \<and> metrics_sound ps r) \<and>
      (0 < tq \<longrightarrow> (\<exists>r. scheduleRoundRobin ps tq = Some r \<and> metrics_sound ps r))"
    if pre: "preconditions ps" and safe: "within_safe_range ps"
  proof -
    from pre have pos: "\<forall>p \<in> set ps. 0 \<le> arrivalTime p \<and> 0 < burstTime p"
      by (auto simp: preconditions_def)
    have rr: "0 < tq \<longrightarrow> (\<exists>r. scheduleRoundRobin ps tq = Some r \<and> metrics_sound ps r)"
    proof
      assume "0 < tq"
      from scheduleRoundRobin_total [OF pos safe this]
      show "\<exists>r. scheduleRoundRobin ps tq = Some r \<and> metrics_sound ps r" by blast
    qed
    from scheduleSJF_total [OF pre safe]
    have sjf: "\<exists>r. scheduleSJF ps = Some r \<and> metrics_sound ps r" by blast
    from schedulePriority_total [OF pre safe]
    have prio: "\<exists>r. schedulePriority ps = Some r \<and> metrics_sound ps r" by blast
    show ?thesis
      by (intro conjI fcfs_metrics_sound [OF pre safe] sjf prio rr)
  qed
  then have g: "preconditions ps \<and> within_safe_range ps \<longrightarrow>
      metrics_sound ps (scheduleFCFS ps) \<and>
      (\<exists>r. scheduleSJF ps = Some r \<and> metrics_sound ps r) \<and>
      (\<exists>r. schedulePriority ps = Some r \<and> metrics_sound ps r) \<and>
      (0 < tq \<longrightarrow> (\<exists>r. scheduleRoundRobin ps tq = Some r \<and> metrics_sound ps r))"
    by blast
  show ?thesis
    by (intro conjI g metrics_example3)
qed

theorem metrics_are_bounded_witness:
  "preconditions example3 \<and> within_safe_range example3 \<and>
   metrics_sound example3 (scheduleFCFS example3) \<and>
   (\<exists>r. scheduleSJF example3 = Some r \<and> metrics_sound example3 r) \<and>
   (\<exists>r. schedulePriority example3 = Some r \<and> metrics_sound example3 r) \<and>
   (\<exists>r. scheduleRoundRobin example3 2 = Some r \<and> metrics_sound example3 r)"
proof -
  note p = preconditions_example3
  have q: "(0::int) < 2" by simp
  from metrics_are_bounded [of example3 2, THEN conjunct1] p
  have m: "metrics_sound example3 (scheduleFCFS example3) \<and>
      (\<exists>r. scheduleSJF example3 = Some r \<and> metrics_sound example3 r) \<and>
      (\<exists>r. schedulePriority example3 = Some r \<and> metrics_sound example3 r) \<and>
      (0 < (2::int) \<longrightarrow> (\<exists>r. scheduleRoundRobin example3 2 = Some r \<and> metrics_sound example3 r))"
    by (rule mp)
  from m have a: "metrics_sound example3 (scheduleFCFS example3)"
    by (rule conjunct1)
  from m have b: "\<exists>r. scheduleSJF example3 = Some r \<and> metrics_sound example3 r"
    by (rule conjunct2 [THEN conjunct1])
  from m have c: "\<exists>r. schedulePriority example3 = Some r \<and> metrics_sound example3 r"
    by (rule conjunct2 [THEN conjunct2, THEN conjunct1])
  from m have "0 < (2::int) \<longrightarrow>
      (\<exists>r. scheduleRoundRobin example3 2 = Some r \<and> metrics_sound example3 r)"
    by (rule conjunct2 [THEN conjunct2, THEN conjunct2])
  then have d: "\<exists>r. scheduleRoundRobin example3 2 = Some r \<and> metrics_sound example3 r"
    using q by (rule mp)
  from p have p1: "preconditions example3" and p2: "within_safe_range example3"
    by simp_all
  show ?thesis
    by (intro conjI p1 p2 a b c d)
qed

text \<open>
  Beyond the safe range the bounds fail. A single process that arrives at \<open>2 ^ 53\<close> with a
  burst time of 1 meets the preconditions; first come, first served starts it at \<open>2 ^ 53\<close> and
  ends it at the double sum of \<open>2 ^ 53\<close> and 1, which is \<open>2 ^ 53\<close>: its turnaround time is 0,
  below its burst time, and its completion time is below its arrival time plus its burst time.
\<close>

theorem fcfs_turnaround_below_burst_past_2_53:
  "preconditions arrival_at_2_53 \<and>
   processMetrics (scheduleFCFS arrival_at_2_53) =
     [\<lparr>id' = ''P1'', arrivalTime = 9007199254740992, burstTime = 1, priority = None,
       completionTime = 9007199254740992, turnaroundTime = 0, waitingTime = 0\<rparr>] \<and>
   \<not> metrics_sound arrival_at_2_53 (scheduleFCFS arrival_at_2_53)"
proof -
  have p: "preconditions arrival_at_2_53"
    by (simp add: preconditions_def arrival_at_2_53_def)
  have pm: "processMetrics (scheduleFCFS arrival_at_2_53) =
     [\<lparr>id' = ''P1'', arrivalTime = 9007199254740992, burstTime = 1, priority = None,
       completionTime = 9007199254740992, turnaroundTime = 0, waitingTime = 0\<rparr>]"
    by (simp add: scheduleFCFS_timeline arrival_at_2_53_def js_sub_exact)
  have n: "\<not> metrics_sound arrival_at_2_53 (scheduleFCFS arrival_at_2_53)"
    unfolding metrics_sound_def pm by (simp add: metrics_ok_def)
  show ?thesis
    by (intro conjI p pm n)
qed

section \<open>Termination of round robin\<close>

text \<open>
  C10, within the safe range. For every process list with arrival times of at least 0 and
  burst times above 0, whose latest arrival plus all burst times is at most \<open>2 ^ 53\<close>, and
  every quantum of at least 1, \<open>scheduleRoundRobin\<close> returns, and \<open>processMetrics\<close> holds
  exactly one entry for each process of the list: as many entries with each id as the list has
  processes with that id, so exactly one for each id when the ids are unique; the blocks of
  each process then add up to its burst time. For a quantum of 0 or less it does not return
  when the list is non-empty with burst times above 0.
\<close>

theorem round_robin_terminates:
  "((\<forall>p \<in> set ps. 0 \<le> arrivalTime p \<and> 0 < burstTime p) \<and> within_safe_range ps \<and> 1 \<le> tq \<longrightarrow>
      (\<exists>r. scheduleRoundRobin ps tq = Some r \<and>
           mset (map Process.truncate (processMetrics r)) = mset ps \<and>
           mset (map id' (processMetrics r)) = mset (map id' ps) \<and>
           (distinct (map id' ps) \<longrightarrow>
              distinct (map id' (processMetrics r)) \<and>
              (\<forall>p \<in> set ps.
                 length (filter (\<lambda>m. id' m = id' p) (processMetrics r)) = 1 \<and>
                 cpu_time (executionOrder r) (id' p) = burstTime p)))) \<and>
   (ps \<noteq> [] \<and> (\<forall>p \<in> set ps. 0 < burstTime p) \<and> tq \<le> 0 \<longrightarrow>
      scheduleRoundRobin ps tq = None)"
proof (intro conjI impI)
  assume a: "(\<forall>p \<in> set ps. 0 \<le> arrivalTime p \<and> 0 < burstTime p) \<and> within_safe_range ps \<and>
      1 \<le> tq"
  then have pos: "\<forall>p \<in> set ps. 0 \<le> arrivalTime p \<and> 0 < burstTime p"
    and safe: "within_safe_range ps" and tq: "0 < tq" by auto
  from scheduleRoundRobin_total [OF pos safe tq] obtain r where
    r: "scheduleRoundRobin ps tq = Some r"
    and sound: "metrics_sound ps r"
    and cpu: "distinct (map id' ps) \<longrightarrow>
      (\<forall>p \<in> set ps. cpu_time (executionOrder r) (id' p) = burstTime p)"
    by blast
  from sound have all: "mset (map Process.truncate (processMetrics r)) = mset ps"
    by (simp add: metrics_sound_def)
  then have "image_mset id' (mset (map Process.truncate (processMetrics r)))
      = image_mset id' (mset ps)"
    by simp
  then have ids: "mset (map id' (processMetrics r)) = mset (map id' ps)"
    by (simp add: image_mset.compositionality comp_def)
  have one: "distinct (map id' ps) \<longrightarrow>
      distinct (map id' (processMetrics r)) \<and>
      (\<forall>p \<in> set ps.
         length (filter (\<lambda>m. id' m = id' p) (processMetrics r)) = 1 \<and>
         cpu_time (executionOrder r) (id' p) = burstTime p)"
  proof
    assume d: "distinct (map id' ps)"
    with mset_eq_imp_distinct_iff [OF ids] have dm: "distinct (map id' (processMetrics r))"
      by simp
    have "length (filter (\<lambda>m. id' m = id' p) (processMetrics r)) = 1 \<and>
        cpu_time (executionOrder r) (id' p) = burstTime p" if p: "p \<in> set ps" for p
    proof -
      from ids have "set (map id' (processMetrics r)) = set (map id' ps)"
        by (rule mset_eq_setD)
      with p have "id' p \<in> id' ` set (processMetrics r)" by auto
      then obtain m where m: "m \<in> set (processMetrics r)" "id' m = id' p"
        by (auto simp: image_iff)
      from filter_key_distinct [OF dm m(1)]
      have "filter (\<lambda>q. id' q = id' p) (processMetrics r) = [m]"
        by (simp only: m(2))
      with cpu d p show ?thesis by simp
    qed
    with dm show "distinct (map id' (processMetrics r)) \<and>
      (\<forall>p \<in> set ps.
         length (filter (\<lambda>m. id' m = id' p) (processMetrics r)) = 1 \<and>
         cpu_time (executionOrder r) (id' p) = burstTime p)"
      by blast
  qed
  from r all ids one show "\<exists>r. scheduleRoundRobin ps tq = Some r \<and>
      mset (map Process.truncate (processMetrics r)) = mset ps \<and>
      mset (map id' (processMetrics r)) = mset (map id' ps) \<and>
      (distinct (map id' ps) \<longrightarrow>
         distinct (map id' (processMetrics r)) \<and>
         (\<forall>p \<in> set ps.
            length (filter (\<lambda>m. id' m = id' p) (processMetrics r)) = 1 \<and>
            cpu_time (executionOrder r) (id' p) = burstTime p))"
    by (intro exI [of _ r] conjI)
next
  assume "ps \<noteq> [] \<and> (\<forall>p \<in> set ps. 0 < burstTime p) \<and> tq \<le> 0"
  then show "scheduleRoundRobin ps tq = None"
    using scheduleRoundRobin_diverges [of ps tq] by blast
qed

theorem round_robin_terminates_witness:
  "(\<exists>r. scheduleRoundRobin example3 2 = Some r \<and>
       mset (map Process.truncate (processMetrics r)) = mset example3 \<and>
       mset (map id' (processMetrics r)) = mset (map id' example3) \<and>
       distinct (map id' (processMetrics r)) \<and>
       length (filter (\<lambda>m. id' m = ''P2'') (processMetrics r)) = 1 \<and>
       cpu_time (executionOrder r) ''P2'' = 3) \<and>
   scheduleRoundRobin example3 0 = None"
proof -
  have a: "(\<forall>p \<in> set example3. 0 \<le> arrivalTime p \<and> 0 < burstTime p) \<and>
      within_safe_range example3 \<and> (1::int) \<le> 2"
    by (simp add: example3_def within_safe_range_def)
  have b: "example3 \<noteq> [] \<and> (\<forall>p \<in> set example3. 0 < burstTime p) \<and> (0::int) \<le> 0"
    by (simp add: example3_def)
  have d: "distinct (map id' example3)"
    by (simp add: example3_def)
  have p2: "\<lparr>id' = ''P2'', arrivalTime = 1, burstTime = 3, priority = Some 1\<rparr> \<in> set example3"
    by (simp add: example3_def)
  from round_robin_terminates [of example3 2, THEN conjunct1] a
  have "\<exists>r. scheduleRoundRobin example3 2 = Some r \<and>
       mset (map Process.truncate (processMetrics r)) = mset example3 \<and>
       mset (map id' (processMetrics r)) = mset (map id' example3) \<and>
       (distinct (map id' example3) \<longrightarrow>
          distinct (map id' (processMetrics r)) \<and>
          (\<forall>p \<in> set example3.
             length (filter (\<lambda>m. id' m = id' p) (processMetrics r)) = 1 \<and>
             cpu_time (executionOrder r) (id' p) = burstTime p))"
    by (rule mp)
  then obtain r where r: "scheduleRoundRobin example3 2 = Some r"
    "mset (map Process.truncate (processMetrics r)) = mset example3"
    "mset (map id' (processMetrics r)) = mset (map id' example3)"
    and e: "distinct (map id' example3) \<longrightarrow>
          distinct (map id' (processMetrics r)) \<and>
          (\<forall>p \<in> set example3.
             length (filter (\<lambda>m. id' m = id' p) (processMetrics r)) = 1 \<and>
             cpu_time (executionOrder r) (id' p) = burstTime p)"
    by blast
  from e d have dm: "distinct (map id' (processMetrics r))"
    and each: "\<forall>p \<in> set example3.
             length (filter (\<lambda>m. id' m = id' p) (processMetrics r)) = 1 \<and>
             cpu_time (executionOrder r) (id' p) = burstTime p"
    by simp_all
  from each p2 have "length (filter (\<lambda>m. id' m = ''P2'') (processMetrics r)) = 1"
    "cpu_time (executionOrder r) ''P2'' = 3"
    by fastforce+
  with r dm have c: "\<exists>r. scheduleRoundRobin example3 2 = Some r \<and>
       mset (map Process.truncate (processMetrics r)) = mset example3 \<and>
       mset (map id' (processMetrics r)) = mset (map id' example3) \<and>
       distinct (map id' (processMetrics r)) \<and>
       length (filter (\<lambda>m. id' m = ''P2'') (processMetrics r)) = 1 \<and>
       cpu_time (executionOrder r) ''P2'' = 3"
    by (intro exI [of _ r] conjI)
  from round_robin_terminates [of example3 0, THEN conjunct2] b
  have n: "scheduleRoundRobin example3 0 = None"
    by (rule mp)
  show ?thesis
    by (intro conjI c n)
qed

text \<open>
  Beyond the safe range round robin need not return. On P1(0, \<open>2 ^ 53\<close>), P2(\<open>2 ^ 53 + 2\<close>, 1)
  with quantum \<open>2 ^ 53\<close>, arrival times of at least 0 and burst times above 0, the first
  iteration runs P1 to its end at \<open>2 ^ 53\<close>; the queue is then empty, P2 has not arrived, and
  the idle tick adds 1 to \<open>2 ^ 53\<close>, which gives \<open>2 ^ 53\<close>: every further iteration leaves the state
  as it is. With two processes of id P1 and quantum 2 it returns two entries of that id. On
  the empty list it returns at once for a quantum of 0.
\<close>

theorem round_robin_idles_forever_past_2_53:
  "preconditions long_then_late \<and>
   rr_body (map withRemaining (sort_key arrivalTime long_then_late)) 9007199254740992 rr_init =
     long_then_late_idle \<and>
   rr_cond (map withRemaining (sort_key arrivalTime long_then_late)) long_then_late_idle \<and>
   rr_body (map withRemaining (sort_key arrivalTime long_then_late)) 9007199254740992
     long_then_late_idle = long_then_late_idle \<and>
   scheduleRoundRobin long_then_late 9007199254740992 = None \<and>
   map_option (\<lambda>r. map id' (processMetrics r)) (scheduleRoundRobin duplicate_ids 2) =
     Some [''P1'', ''P1''] \<and>
   scheduleRoundRobin [] 0 = Some empty_result"
proof -
  let ?pq = "map withRemaining (sort_key arrivalTime long_then_late)"
  let ?tq = "9007199254740992 :: int"
  have p: "preconditions long_then_late"
    by (simp add: preconditions_def long_then_late_def)
  have first: "rr_body ?pq ?tq rr_init = long_then_late_idle"
    by (simp add: rr_body_def long_then_late_def long_then_late_idle_def rr_init_def
        enqueue_arrived.simps withRemaining_def js_add_exact js_sub_exact)
  have c0: "rr_cond ?pq rr_init"
    by (simp add: rr_cond_def rr_init_def long_then_late_def)
  have c: "rr_cond ?pq long_then_late_idle"
    by (simp add: rr_cond_def long_then_late_idle_def long_then_late_def)
  have stay: "rr_body ?pq ?tq long_then_late_idle = long_then_late_idle"
    by (simp add: rr_body_def long_then_late_def long_then_late_idle_def
        enqueue_arrived.simps withRemaining_def)
  have "rr_loop ?pq ?tq long_then_late_idle = None"
  proof (rule rr_loop_diverges [of "\<lambda>s. s = long_then_late_idle"])
    show "long_then_late_idle = long_then_late_idle" ..
  next
    fix s
    assume "s = long_then_late_idle"
    with c stay show "rr_cond ?pq s \<and> rr_body ?pq ?tq s = long_then_late_idle"
      by simp
  qed
  then have "rr_loop ?pq ?tq rr_init = None"
    using c0 first by (subst rr_loop.simps) simp
  then have n: "scheduleRoundRobin long_then_late ?tq = None"
    by (simp add: scheduleRoundRobin_def)
  have d: "map_option (\<lambda>r. map id' (processMetrics r)) (scheduleRoundRobin duplicate_ids 2) =
     Some [''P1'', ''P1'']"
    by (simp add: scheduleRoundRobin_def duplicate_ids_def rr_loop.simps rr_body_def rr_cond_def
        rr_init_def enqueue_arrived.simps withRemaining_def js_add_exact js_sub_exact)
  have e: "scheduleRoundRobin [] 0 = Some empty_result"
    by (simp add: scheduleRoundRobin_def rr_loop.simps rr_cond_def rr_init_def
        calculateAverages_empty)
  show ?thesis
    by (intro conjI p first c stay n d e)
qed

section \<open>The averages\<close>

lemma scheduleFCFS_average:
  "averageWaitingTime (scheduleFCFS ps) =
     js_div (foldl (\<lambda>sum p. js_add sum (waitingTime p)) 0 (processMetrics (scheduleFCFS ps)))
       (length (processMetrics (scheduleFCFS ps)))"
  "averageTurnaroundTime (scheduleFCFS ps) =
     js_div (foldl (\<lambda>sum p. js_add sum (turnaroundTime p)) 0 (processMetrics (scheduleFCFS ps)))
       (length (processMetrics (scheduleFCFS ps)))"
proof -
  obtain eo pm t where "foldl fcfs_body ([], [], 0) (sort_key arrivalTime ps) = (eo, pm, t)"
    by (cases "foldl fcfs_body ([], [], 0) (sort_key arrivalTime ps)") auto
  then have r: "scheduleFCFS ps = calculateAverages eo pm"
    by (simp add: scheduleFCFS_def)
  show "averageWaitingTime (scheduleFCFS ps) =
     js_div (foldl (\<lambda>sum p. js_add sum (waitingTime p)) 0 (processMetrics (scheduleFCFS ps)))
       (length (processMetrics (scheduleFCFS ps)))"
    and "averageTurnaroundTime (scheduleFCFS ps) =
     js_div (foldl (\<lambda>sum p. js_add sum (turnaroundTime p)) 0 (processMetrics (scheduleFCFS ps)))
       (length (processMetrics (scheduleFCFS ps)))"
    unfolding r by (simp_all add: calculateAverages_def)
qed

lemma averages_example3:
  "averageWaitingTime (scheduleFCFS example3) = Fin (8 / 3)"
  "averageTurnaroundTime (scheduleFCFS example3) = Fin (16 / 3)"
  "map_option averageWaitingTime (scheduleSJF example3) = Some (Fin 2)"
  "map_option averageTurnaroundTime (scheduleSJF example3) = Some (Fin (14 / 3))"
  "map_option averageWaitingTime (schedulePriority example3) = Some (Fin (8 / 3))"
  "map_option averageTurnaroundTime (schedulePriority example3) = Some (Fin (16 / 3))"
  "map_option averageWaitingTime (scheduleRoundRobin example3 2) = Some (Fin 3)"
  "map_option averageTurnaroundTime (scheduleRoundRobin example3 2) = Some (Fin (17 / 3))"
proof -
  show "averageWaitingTime (scheduleFCFS example3) = Fin (8 / 3)"
    and "averageTurnaroundTime (scheduleFCFS example3) = Fin (16 / 3)"
    unfolding scheduleFCFS_average metrics_example3
    by (simp_all add: js_div_def js_add_exact)
  show "map_option averageWaitingTime (scheduleSJF example3) = Some (Fin 2)"
    and "map_option averageTurnaroundTime (scheduleSJF example3) = Some (Fin (14 / 3))"
    by (simp_all add: scheduleSJF_def example3_def sjf_loop.simps sjf_body_def sel_init_def
        availableProcesses_def withRemaining_def shortestJob_def run_to_completion_def
        calculateAverages_def js_div_def js_add_exact js_sub_exact)
  show "map_option averageWaitingTime (schedulePriority example3) = Some (Fin (8 / 3))"
    and "map_option averageTurnaroundTime (schedulePriority example3) = Some (Fin (16 / 3))"
    by (simp_all add: schedulePriority_def example3_def priority_loop.simps priority_body_def
        sel_init_def availableProcesses_def withRemaining_def highestPriority_def
        run_to_completion_def calculateAverages_def js_div_def js_add_exact js_sub_exact)
  show "map_option averageWaitingTime (scheduleRoundRobin example3 2) = Some (Fin 3)"
    and "map_option averageTurnaroundTime (scheduleRoundRobin example3 2) = Some (Fin (17 / 3))"
    by (simp_all add: scheduleRoundRobin_def example3_def rr_loop.simps rr_body_def rr_cond_def
        rr_init_def enqueue_arrived.simps withRemaining_def calculateAverages_def js_div_def
        js_add_exact js_sub_exact)
qed

text \<open>
  C9, within the safe range. \<open>calculateAverages\<close> returns the blocks and the metrics it is
  given, with the two averages; when no waiting time and no turnaround time of the metrics is
  negative and each of the two sums is at most \<open>2 ^ 53\<close>, the averages are the arithmetic means
  of the waiting times and of the turnaround times of the metrics. So are then the averages
  in the result of every scheduling function, for the \<open>processMetrics\<close> of that result. On the
  empty process list every scheduling function returns, with no block, no metrics and both
  averages \<open>NaN\<close>. On P1(0, 4), P2(1, 3), P3(2, 1) the averages are 8/3 and 16/3 for first come,
  first served and for priority, 2 and 14/3 for shortest job first, 3 and 17/3 for round robin
  with quantum 2.
\<close>

theorem averages_are_means_of_metrics:
  "executionOrder (calculateAverages eo pm) = eo \<and>
   processMetrics (calculateAverages eo pm) = pm \<and>
   (sums_within_safe_range pm \<longrightarrow> averages_are_means (calculateAverages eo pm)) \<and>
   (sums_within_safe_range (processMetrics (scheduleFCFS ps)) \<longrightarrow>
      averages_are_means (scheduleFCFS ps)) \<and>
   (\<forall>r. scheduleSJF ps = Some r \<and> sums_within_safe_range (processMetrics r) \<longrightarrow>
      averages_are_means r) \<and>
   (\<forall>r. schedulePriority ps = Some r \<and> sums_within_safe_range (processMetrics r) \<longrightarrow>
      averages_are_means r) \<and>
   (\<forall>r. scheduleRoundRobin ps tq = Some r \<and> sums_within_safe_range (processMetrics r) \<longrightarrow>
      averages_are_means r) \<and>
   scheduleFCFS [] = empty_result \<and>
   scheduleSJF [] = Some empty_result \<and>
   schedulePriority [] = Some empty_result \<and>
   scheduleRoundRobin [] tq = Some empty_result \<and>
   averageWaitingTime (scheduleFCFS example3) = Fin (8 / 3) \<and>
   averageTurnaroundTime (scheduleFCFS example3) = Fin (16 / 3) \<and>
   map_option averageWaitingTime (scheduleSJF example3) = Some (Fin 2) \<and>
   map_option averageTurnaroundTime (scheduleSJF example3) = Some (Fin (14 / 3)) \<and>
   map_option averageWaitingTime (schedulePriority example3) = Some (Fin (8 / 3)) \<and>
   map_option averageTurnaroundTime (schedulePriority example3) = Some (Fin (16 / 3)) \<and>
   map_option averageWaitingTime (scheduleRoundRobin example3 2) = Some (Fin 3) \<and>
   map_option averageTurnaroundTime (scheduleRoundRobin example3 2) = Some (Fin (17 / 3))"
proof -
  have a1: "executionOrder (calculateAverages eo pm) = eo"
    and a2: "processMetrics (calculateAverages eo pm) = pm"
    by simp_all
  have a3: "sums_within_safe_range pm \<longrightarrow> averages_are_means (calculateAverages eo pm)"
    by (simp add: calculateAverages_means)
  have fcfs: "sums_within_safe_range (processMetrics (scheduleFCFS ps)) \<longrightarrow>
      averages_are_means (scheduleFCFS ps)"
  proof
    assume "sums_within_safe_range (processMetrics (scheduleFCFS ps))"
    from calculateAverages_means [OF this, of "executionOrder (scheduleFCFS ps)"]
    show "averages_are_means (scheduleFCFS ps)"
      by (simp only: scheduleFCFS_calculateAverages [symmetric])
  qed
  have sjf: "\<forall>r. scheduleSJF ps = Some r \<and> sums_within_safe_range (processMetrics r) \<longrightarrow>
      averages_are_means r"
    by (auto simp: scheduleSJF_def calculateAverages_means split: option.splits)
  have prio: "\<forall>r. schedulePriority ps = Some r \<and> sums_within_safe_range (processMetrics r) \<longrightarrow>
      averages_are_means r"
    by (auto simp: schedulePriority_def calculateAverages_means split: option.splits)
  have rr: "\<forall>r. scheduleRoundRobin ps tq = Some r \<and> sums_within_safe_range (processMetrics r) \<longrightarrow>
      averages_are_means r"
    by (auto simp: scheduleRoundRobin_def calculateAverages_means split: option.splits)
  have e1: "scheduleFCFS [] = empty_result"
    by (simp add: scheduleFCFS_def calculateAverages_empty)
  have e2: "scheduleSJF [] = Some empty_result"
    by (simp add: scheduleSJF_def sjf_loop.simps sel_init_def calculateAverages_empty)
  have e3: "schedulePriority [] = Some empty_result"
    by (simp add: schedulePriority_def priority_loop.simps sel_init_def calculateAverages_empty)
  have e4: "scheduleRoundRobin [] tq = Some empty_result"
    by (simp add: scheduleRoundRobin_def rr_loop.simps rr_cond_def rr_init_def
        calculateAverages_empty)
  show ?thesis
    by (intro conjI a1 a2 a3 fcfs sjf prio rr e1 e2 e3 e4 averages_example3)
qed

theorem averages_are_means_of_metrics_witness:
  "sums_within_safe_range (processMetrics (scheduleFCFS example3)) \<and>
   averages_are_means (scheduleFCFS example3) \<and>
   arithmetic_mean (map waitingTime (processMetrics (scheduleFCFS example3))) = Fin (8 / 3) \<and>
   (\<exists>r. scheduleSJF example3 = Some r \<and> sums_within_safe_range (processMetrics r) \<and>
      averages_are_means r) \<and>
   (\<exists>r. schedulePriority example3 = Some r \<and> sums_within_safe_range (processMetrics r) \<and>
      averages_are_means r) \<and>
   (\<exists>r. scheduleRoundRobin example3 2 = Some r \<and> sums_within_safe_range (processMetrics r) \<and>
      averages_are_means r)"
proof -
  note t = averages_are_means_of_metrics [of "[]" "[]" example3 2]
  have s1: "sums_within_safe_range (processMetrics (scheduleFCFS example3))"
    unfolding metrics_example3 by (simp add: sums_within_safe_range_def)
  from t s1 have a: "averages_are_means (scheduleFCFS example3)"
    by blast
  have m: "arithmetic_mean (map waitingTime (processMetrics (scheduleFCFS example3))) = Fin (8 / 3)"
    unfolding metrics_example3 by (simp add: arithmetic_mean_def)
  from metrics_example3(2) obtain r2 where r2: "scheduleSJF example3 = Some r2"
    and "sums_within_safe_range (processMetrics r2)"
    by (auto simp: sums_within_safe_range_def)
  with t have b: "\<exists>r. scheduleSJF example3 = Some r \<and> sums_within_safe_range (processMetrics r) \<and>
      averages_are_means r"
    by blast
  from metrics_example3(3) obtain r3 where r3: "schedulePriority example3 = Some r3"
    and "sums_within_safe_range (processMetrics r3)"
    by (auto simp: sums_within_safe_range_def)
  with t have c: "\<exists>r. schedulePriority example3 = Some r \<and>
      sums_within_safe_range (processMetrics r) \<and> averages_are_means r"
    by blast
  from metrics_example3(4) obtain r4 where r4: "scheduleRoundRobin example3 2 = Some r4"
    and "sums_within_safe_range (processMetrics r4)"
    by (auto simp: sums_within_safe_range_def)
  with t have d: "\<exists>r. scheduleRoundRobin example3 2 = Some r \<and>
      sums_within_safe_range (processMetrics r) \<and> averages_are_means r"
    by blast
  show ?thesis
    by (intro conjI s1 a m b c d)
qed

text \<open>
  Beyond the safe range an average need not be the mean of the metrics. On P1(0, \<open>2 ^ 53\<close>),
  P2(0, 1), P3(\<open>2 ^ 53 - 1\<close>, 1), P4(\<open>2 ^ 53 - 1\<close>, 1) first come, first served gives the waiting
  times 0, \<open>2 ^ 53\<close>, 1 and 1. Added from the left as doubles they give \<open>2 ^ 53\<close>, each 1 being lost,
  and the average waiting time is \<open>2 ^ 51\<close>; the mean of the four waiting times is
  \<open>2 ^ 51 + 1/2\<close>, itself a double.
\<close>

theorem fcfs_average_is_not_the_mean_past_2_53:
  "preconditions long_then_three \<and>
   map waitingTime (processMetrics (scheduleFCFS long_then_three)) =
     [0, 9007199254740992, 1, 1] \<and>
   averageWaitingTime (scheduleFCFS long_then_three) = Fin 2251799813685248 \<and>
   arithmetic_mean (map waitingTime (processMetrics (scheduleFCFS long_then_three))) =
     Fin (4503599627370497 / 2) \<and>
   \<not> averages_are_means (scheduleFCFS long_then_three)"
proof -
  have p: "preconditions long_then_three"
    by (simp add: preconditions_def long_then_three_def)
  have pm: "processMetrics (scheduleFCFS long_then_three) =
     [\<lparr>id' = ''P1'', arrivalTime = 0, burstTime = 9007199254740992, priority = None,
       completionTime = 9007199254740992, turnaroundTime = 9007199254740992, waitingTime = 0\<rparr>,
      \<lparr>id' = ''P2'', arrivalTime = 0, burstTime = 1, priority = None,
       completionTime = 9007199254740992, turnaroundTime = 9007199254740992,
       waitingTime = 9007199254740992\<rparr>,
      \<lparr>id' = ''P3'', arrivalTime = 9007199254740991, burstTime = 1, priority = None,
       completionTime = 9007199254740992, turnaroundTime = 1, waitingTime = 1\<rparr>,
      \<lparr>id' = ''P4'', arrivalTime = 9007199254740991, burstTime = 1, priority = None,
       completionTime = 9007199254740992, turnaroundTime = 1, waitingTime = 1\<rparr>]"
    by (simp add: scheduleFCFS_timeline long_then_three_def js_add_exact js_sub_exact)
  have w: "map waitingTime (processMetrics (scheduleFCFS long_then_three)) =
     [0, 9007199254740992, 1, 1]"
    unfolding pm by simp
  have av: "averageWaitingTime (scheduleFCFS long_then_three) = Fin 2251799813685248"
    unfolding scheduleFCFS_average pm by (simp add: js_div_def js_add_exact)
  have mean: "arithmetic_mean (map waitingTime (processMetrics (scheduleFCFS long_then_three))) =
     Fin (4503599627370497 / 2)"
    unfolding w by (simp add: arithmetic_mean_def)
  have n: "\<not> averages_are_means (scheduleFCFS long_then_three)"
    unfolding averages_are_means_def av mean by simp
  show ?thesis
    by (intro conjI p w av mean n)
qed

section \<open>First come, first served: the order of the run\<close>

lemma js_add_at_2_53_3 [simp]: "js_add 9007199254740992 3 = 9007199254740996"
  by (simp add: js_add_def js_double_at_2_53_plus_3)

text \<open>
  C3, within the safe range. First come, first served runs the processes in the order of their
  arrival times, processes of equal arrival time in the order of the input (the list it runs
  is sorted by arrival time, is a permutation of the input, and keeps the input order among
  the processes of each arrival time); each process starts at the later of the clock and its
  arrival, and its block ends at the sum the program computes of its start and its burst
  time, the clock then being that end. With no negative arrival or burst time and the latest
  arrival plus all burst times at most \<open>2 ^ 53\<close> the sum is exact: each process runs for its
  burst time, as in the recursion of the specification. On P1(0, 4), P2(1, 3), P3(2, 1) the
  timeline is P1[0,4), P2[4,7), P3[7,8), the waiting times are 0, 3 and 5, and the average
  waiting time is 8/3.
\<close>

theorem fcfs_sorted_stable_uninterrupted:
  "(\<exists>sortedProcesses.
      sorted (map arrivalTime sortedProcesses) \<and>
      mset sortedProcesses = mset ps \<and>
      (\<forall>k. filter (\<lambda>p. arrivalTime p = k) sortedProcesses = filter (\<lambda>p. arrivalTime p = k) ps) \<and>
      executionOrder (scheduleFCFS ps) = fcfs_timeline_double 0 sortedProcesses \<and>
      processMetrics (scheduleFCFS ps) = fcfs_metrics_double 0 sortedProcesses \<and>
      ((\<forall>p \<in> set ps. 0 \<le> arrivalTime p \<and> 0 \<le> burstTime p) \<and> within_safe_range ps \<longrightarrow>
         executionOrder (scheduleFCFS ps) = fcfs_timeline 0 sortedProcesses \<and>
         processMetrics (scheduleFCFS ps) = fcfs_metrics 0 sortedProcesses)) \<and>
   executionOrder (scheduleFCFS example3) =
     [\<lparr>processId = ''P1'', startTime = 0, endTime = 4\<rparr>,
      \<lparr>processId = ''P2'', startTime = 4, endTime = 7\<rparr>,
      \<lparr>processId = ''P3'', startTime = 7, endTime = 8\<rparr>] \<and>
   map id' (processMetrics (scheduleFCFS example3)) = [''P1'', ''P2'', ''P3''] \<and>
   map waitingTime (processMetrics (scheduleFCFS example3)) = [0, 3, 5] \<and>
   averageWaitingTime (scheduleFCFS example3) = Fin (8 / 3)"
proof -
  let ?sp = "sort_key arrivalTime ps"
  have s1: "sorted (map arrivalTime ?sp)" by simp
  have s2: "mset ?sp = mset ps" by simp
  have s3: "\<forall>k. filter (\<lambda>p. arrivalTime p = k) ?sp = filter (\<lambda>p. arrivalTime p = k) ps"
    by (simp add: sort_key_stable)
  have s4: "(\<forall>p \<in> set ps. 0 \<le> arrivalTime p \<and> 0 \<le> burstTime p) \<and> within_safe_range ps \<longrightarrow>
      executionOrder (scheduleFCFS ps) = fcfs_timeline 0 ?sp \<and>
      processMetrics (scheduleFCFS ps) = fcfs_metrics 0 ?sp"
  proof
    assume a: "(\<forall>p \<in> set ps. 0 \<le> arrivalTime p \<and> 0 \<le> burstTime p) \<and> within_safe_range ps"
    then have pos: "\<forall>p \<in> set ps. 0 \<le> arrivalTime p \<and> 0 \<le> burstTime p"
      and safe: "within_safe_range ps" by simp_all
    from scheduleFCFS_exact [OF pos safe]
    show "executionOrder (scheduleFCFS ps) = fcfs_timeline 0 ?sp \<and>
        processMetrics (scheduleFCFS ps) = fcfs_metrics 0 ?sp"
      by simp
  qed
  have general: "\<exists>sortedProcesses.
      sorted (map arrivalTime sortedProcesses) \<and>
      mset sortedProcesses = mset ps \<and>
      (\<forall>k. filter (\<lambda>p. arrivalTime p = k) sortedProcesses = filter (\<lambda>p. arrivalTime p = k) ps) \<and>
      executionOrder (scheduleFCFS ps) = fcfs_timeline_double 0 sortedProcesses \<and>
      processMetrics (scheduleFCFS ps) = fcfs_metrics_double 0 sortedProcesses \<and>
      ((\<forall>p \<in> set ps. 0 \<le> arrivalTime p \<and> 0 \<le> burstTime p) \<and> within_safe_range ps \<longrightarrow>
         executionOrder (scheduleFCFS ps) = fcfs_timeline 0 sortedProcesses \<and>
         processMetrics (scheduleFCFS ps) = fcfs_metrics 0 sortedProcesses)"
    by (intro exI [of _ ?sp] conjI s1 s2 s3 s4 scheduleFCFS_timeline)
  have ex: "scheduleFCFS example3 =
     \<lparr>executionOrder =
        [\<lparr>processId = ''P1'', startTime = 0, endTime = 4\<rparr>,
         \<lparr>processId = ''P2'', startTime = 4, endTime = 7\<rparr>,
         \<lparr>processId = ''P3'', startTime = 7, endTime = 8\<rparr>],
      processMetrics =
        [\<lparr>id' = ''P1'', arrivalTime = 0, burstTime = 4, priority = Some 2,
          completionTime = 4, turnaroundTime = 4, waitingTime = 0\<rparr>,
         \<lparr>id' = ''P2'', arrivalTime = 1, burstTime = 3, priority = Some 1,
          completionTime = 7, turnaroundTime = 6, waitingTime = 3\<rparr>,
         \<lparr>id' = ''P3'', arrivalTime = 2, burstTime = 1, priority = Some 3,
          completionTime = 8, turnaroundTime = 6, waitingTime = 5\<rparr>],
      averageWaitingTime = Fin (8 / 3), averageTurnaroundTime = Fin (16 / 3)\<rparr>"
    by (simp add: scheduleFCFS_def example3_def fcfs_body_def calculateAverages_def js_div_def
        js_add_exact js_sub_exact)
  show ?thesis
    using general by (simp add: ex)
qed

theorem fcfs_sorted_stable_uninterrupted_witness:
  "preconditions example3 \<and> within_safe_range example3 \<and>
   (\<exists>sortedProcesses.
      mset sortedProcesses = mset example3 \<and>
      executionOrder (scheduleFCFS example3) = fcfs_timeline_double 0 sortedProcesses \<and>
      executionOrder (scheduleFCFS example3) = fcfs_timeline 0 sortedProcesses \<and>
      processMetrics (scheduleFCFS example3) = fcfs_metrics 0 sortedProcesses)"
proof -
  have p: "(\<forall>p \<in> set example3. 0 \<le> arrivalTime p \<and> 0 \<le> burstTime p) \<and>
      within_safe_range example3"
    by (simp add: example3_def within_safe_range_def)
  from fcfs_sorted_stable_uninterrupted [of example3, THEN conjunct1] obtain sp where
    sp: "mset sp = mset example3"
      "executionOrder (scheduleFCFS example3) = fcfs_timeline_double 0 sp"
    and e: "(\<forall>p \<in> set example3. 0 \<le> arrivalTime p \<and> 0 \<le> burstTime p) \<and>
        within_safe_range example3 \<longrightarrow>
         executionOrder (scheduleFCFS example3) = fcfs_timeline 0 sp \<and>
         processMetrics (scheduleFCFS example3) = fcfs_metrics 0 sp"
    by blast
  from e p have "executionOrder (scheduleFCFS example3) = fcfs_timeline 0 sp"
    "processMetrics (scheduleFCFS example3) = fcfs_metrics 0 sp"
    by blast+
  with sp have x: "\<exists>sortedProcesses.
      mset sortedProcesses = mset example3 \<and>
      executionOrder (scheduleFCFS example3) = fcfs_timeline_double 0 sortedProcesses \<and>
      executionOrder (scheduleFCFS example3) = fcfs_timeline 0 sortedProcesses \<and>
      processMetrics (scheduleFCFS example3) = fcfs_metrics 0 sortedProcesses"
    by (intro exI [of _ sp] conjI)
  from preconditions_example3 have p1: "preconditions example3"
    and p2: "within_safe_range example3" by blast+
  show ?thesis
    by (intro conjI p1 p2 x)
qed

text \<open>
  Beyond the safe range a process need not run for its burst time. On P1(0, \<open>2 ^ 53\<close>),
  P2(1, 3), which is sorted and meets the preconditions, P2 starts at \<open>2 ^ 53\<close>; the sum of
  \<open>2 ^ 53\<close> and 3 is half way between two doubles and is rounded to \<open>2 ^ 53 + 4\<close>: the block of P2
  is four ticks long for a burst time of 3, and the timeline is not the one of the recursion
  of the specification.
\<close>

theorem fcfs_runs_four_ticks_for_three_past_2_53:
  "preconditions long_then_burst_3 \<and>
   sort_key arrivalTime long_then_burst_3 = long_then_burst_3 \<and>
   executionOrder (scheduleFCFS long_then_burst_3) =
     [\<lparr>processId = ''P1'', startTime = 0, endTime = 9007199254740992\<rparr>,
      \<lparr>processId = ''P2'', startTime = 9007199254740992, endTime = 9007199254740996\<rparr>] \<and>
   fcfs_timeline 0 long_then_burst_3 =
     [\<lparr>processId = ''P1'', startTime = 0, endTime = 9007199254740992\<rparr>,
      \<lparr>processId = ''P2'', startTime = 9007199254740992, endTime = 9007199254740995\<rparr>] \<and>
   executionOrder (scheduleFCFS long_then_burst_3) \<noteq>
     fcfs_timeline 0 (sort_key arrivalTime long_then_burst_3)"
proof -
  have p: "preconditions long_then_burst_3"
    by (simp add: preconditions_def long_then_burst_3_def)
  have s: "sort_key arrivalTime long_then_burst_3 = long_then_burst_3"
    by (simp add: long_then_burst_3_def)
  have eo: "executionOrder (scheduleFCFS long_then_burst_3) =
     [\<lparr>processId = ''P1'', startTime = 0, endTime = 9007199254740992\<rparr>,
      \<lparr>processId = ''P2'', startTime = 9007199254740992, endTime = 9007199254740996\<rparr>]"
    by (simp add: scheduleFCFS_timeline long_then_burst_3_def js_add_exact)
  have sp: "fcfs_timeline 0 long_then_burst_3 =
     [\<lparr>processId = ''P1'', startTime = 0, endTime = 9007199254740992\<rparr>,
      \<lparr>processId = ''P2'', startTime = 9007199254740992, endTime = 9007199254740995\<rparr>]"
    by (simp add: long_then_burst_3_def)
  have n: "executionOrder (scheduleFCFS long_then_burst_3) \<noteq>
     fcfs_timeline 0 (sort_key arrivalTime long_then_burst_3)"
    unfolding s eo sp by simp
  show ?thesis
    by (intro conjI p s eo sp n)
qed

section \<open>What the caller checks\<close>

text \<open>
  C6. \<open>runScheduler\<close> passes \<open>reversePriority\<close> to \<open>schedulePriority\<close>, which has no such
  parameter: the outcome is the same for both values of the flag. On the example, with the
  flag set, P2 (priority 1) and P3 (priority 3) are both eligible at time 4, and P2 runs.
\<close>

theorem reversePriority_is_ignored:
  "runScheduler srtf pp Priority ps tq True = runScheduler srtf pp Priority ps tq False \<and>
   (\<exists>r. runScheduler srtf pp Priority example3 2 True = Some (SetResult r) \<and>
        executionOrder r =
          [\<lparr>processId = ''P1'', startTime = 0, endTime = 4\<rparr>,
           \<lparr>processId = ''P2'', startTime = 4, endTime = 7\<rparr>,
           \<lparr>processId = ''P3'', startTime = 7, endTime = 8\<rparr>])"
proof -
  have "schedulePriority example3 = Some (calculateAverages
      [\<lparr>processId = ''P1'', startTime = 0, endTime = 4\<rparr>,
       \<lparr>processId = ''P2'', startTime = 4, endTime = 7\<rparr>,
       \<lparr>processId = ''P3'', startTime = 7, endTime = 8\<rparr>]
      [\<lparr>id' = ''P1'', arrivalTime = 0, burstTime = 4, priority = Some 2,
        completionTime = 4, turnaroundTime = 4, waitingTime = 0\<rparr>,
       \<lparr>id' = ''P2'', arrivalTime = 1, burstTime = 3, priority = Some 1,
        completionTime = 7, turnaroundTime = 6, waitingTime = 3\<rparr>,
       \<lparr>id' = ''P3'', arrivalTime = 2, burstTime = 1, priority = Some 3,
        completionTime = 8, turnaroundTime = 6, waitingTime = 5\<rparr>])"
    by (simp add: schedulePriority_def example3_def priority_loop.simps priority_body_def
        sel_init_def availableProcesses_def withRemaining_def highestPriority_def
        run_to_completion_def js_add_exact js_sub_exact)
  then have "\<exists>r. runScheduler srtf pp Priority example3 2 True = Some (SetResult r) \<and>
        executionOrder r =
          [\<lparr>processId = ''P1'', startTime = 0, endTime = 4\<rparr>,
           \<lparr>processId = ''P2'', startTime = 4, endTime = 7\<rparr>,
           \<lparr>processId = ''P3'', startTime = 7, endTime = 8\<rparr>]"
    by (simp add: runScheduler_def example3_def)
  moreover have "runScheduler srtf pp Priority ps tq True = runScheduler srtf pp Priority ps tq False"
    by (simp add: runScheduler_def)
  ultimately show ?thesis by blast
qed

text \<open>
  C8, as the code has it. The scheduling functions check nothing. \<open>runScheduler\<close> rejects the
  empty process list for every policy, and a process without priority for the two priority
  policies, before it calls a scheduling function and without a result. In every other case it
  calls the scheduling function and hands on what that returns: duplicate ids and a quantum of
  0 or less are not detected, and with such a quantum, on a non-empty list with burst times
  above 0, round robin does not return.
\<close>

theorem caller_rejects_empty_and_missing_priority:
  "runScheduler srtf pp alg [] tq flag = Some (Toast ''No Processes'') \<and>
   (ps \<noteq> [] \<and> (\<exists>p \<in> set ps. priority p = None) \<longrightarrow>
      runScheduler srtf pp Priority ps tq flag = Some (Toast ''Missing Priority'') \<and>
      runScheduler srtf pp PriorityP ps tq flag = Some (Toast ''Missing Priority'')) \<and>
   (ps \<noteq> [] \<longrightarrow>
      runScheduler srtf pp FCFS ps tq flag = Some (SetResult (scheduleFCFS ps)) \<and>
      runScheduler srtf pp SJF ps tq flag = map_option SetResult (scheduleSJF ps) \<and>
      runScheduler srtf pp RoundRobin ps tq flag = map_option SetResult (scheduleRoundRobin ps tq)) \<and>
   (ps \<noteq> [] \<and> (\<forall>p \<in> set ps. priority p \<noteq> None) \<longrightarrow>
      runScheduler srtf pp Priority ps tq flag = map_option SetResult (schedulePriority ps)) \<and>
   (ps \<noteq> [] \<and> (\<forall>p \<in> set ps. 0 < burstTime p) \<and> tq \<le> 0 \<longrightarrow>
      runScheduler srtf pp RoundRobin ps tq flag = None)"
proof -
  have "runScheduler srtf pp RoundRobin ps tq flag = None"
    if "ps \<noteq> []" "\<forall>p \<in> set ps. 0 < burstTime p" "tq \<le> 0"
    using that scheduleRoundRobin_diverges [of ps tq] by (simp add: runScheduler_def)
  then show ?thesis
    by (auto simp: runScheduler_def)
qed

theorem caller_rejects_empty_and_missing_priority_witness:
  "runScheduler (\<lambda>_. None) (\<lambda>_ _. None) Priority
     [\<lparr>id' = ''P1'', arrivalTime = 0, burstTime = 4, priority = None\<rparr>] 2 False
     = Some (Toast ''Missing Priority'') \<and>
   runScheduler (\<lambda>_. None) (\<lambda>_ _. None) FCFS example3 2 False
     = Some (SetResult (scheduleFCFS example3)) \<and>
   runScheduler (\<lambda>_. None) (\<lambda>_ _. None) Priority example3 2 False
     = map_option SetResult (schedulePriority example3) \<and>
   runScheduler (\<lambda>_. None) (\<lambda>_ _. None) RoundRobin example3 0 False = None"
proof -
  let ?one = "[\<lparr>id' = ''P1'', arrivalTime = 0, burstTime = 4, priority = None\<rparr>]"
  have a: "?one \<noteq> [] \<and> (\<exists>p \<in> set ?one. priority p = None)" by simp
  have b: "example3 \<noteq> []" by (simp add: example3_def)
  have c: "example3 \<noteq> [] \<and> (\<forall>p \<in> set example3. priority p \<noteq> None)"
    by (simp add: example3_def)
  have d: "example3 \<noteq> [] \<and> (\<forall>p \<in> set example3. 0 < burstTime p) \<and> (0::int) \<le> 0"
    by (simp add: example3_def)
  note t1 = caller_rejects_empty_and_missing_priority
    [of "\<lambda>_. None" "\<lambda>_ _. None" Priority 2 False ?one]
  note t2 = caller_rejects_empty_and_missing_priority
    [of "\<lambda>_. None" "\<lambda>_ _. None" Priority 2 False example3]
  note t3 = caller_rejects_empty_and_missing_priority
    [of "\<lambda>_. None" "\<lambda>_ _. None" Priority 0 False example3]
  from t1 a have "runScheduler (\<lambda>_. None) (\<lambda>_ _. None) Priority ?one 2 False
      = Some (Toast ''Missing Priority'')" by blast
  moreover from t2 b have "runScheduler (\<lambda>_. None) (\<lambda>_ _. None) FCFS example3 2 False
      = Some (SetResult (scheduleFCFS example3))" by blast
  moreover from t2 c have "runScheduler (\<lambda>_. None) (\<lambda>_ _. None) Priority example3 2 False
      = map_option SetResult (schedulePriority example3)" by blast
  moreover from t3 d have "runScheduler (\<lambda>_. None) (\<lambda>_ _. None) RoundRobin example3 0 False
      = None" by blast
  ultimately show ?thesis by blast
qed

text \<open>
  Two processes with the same id under first come, first served: no error, and a result
  with a timeline and metrics.
\<close>

theorem duplicate_ids_are_scheduled:
  "runScheduler (\<lambda>_. None) (\<lambda>_ _. None) FCFS duplicate_ids 2 False =
     Some (SetResult
       \<lparr>executionOrder =
          [\<lparr>processId = ''P1'', startTime = 0, endTime = 4\<rparr>,
           \<lparr>processId = ''P1'', startTime = 4, endTime = 7\<rparr>],
        processMetrics =
          [\<lparr>id' = ''P1'', arrivalTime = 0, burstTime = 4, priority = Some 2,
            completionTime = 4, turnaroundTime = 4, waitingTime = 0\<rparr>,
           \<lparr>id' = ''P1'', arrivalTime = 1, burstTime = 3, priority = Some 1,
            completionTime = 7, turnaroundTime = 6, waitingTime = 3\<rparr>],
        averageWaitingTime = Fin (3 / 2), averageTurnaroundTime = Fin 5\<rparr>)"
  by (simp add: runScheduler_def duplicate_ids_def scheduleFCFS_def fcfs_body_def
      calculateAverages_def js_div_def js_add_exact js_sub_exact)

section \<open>The steps of the loops\<close>

lemma example3_at_4_reached:
  "sjf_body (map withRemaining example3) sel_init = example3_at_4"
  by (simp add: sjf_body_def example3_def sel_init_def example3_at_4_def availableProcesses_def
      shortestJob_def run_to_completion_def js_add_exact js_sub_exact)

lemma shortestJob_snoc:
  "shortestJob x (xs @ [y]) =
     (if burstTime y < burstTime (shortestJob x xs) then y else shortestJob x xs)"
  by (simp add: shortestJob_def)

lemma shortestJob_first_minimum:
  "\<exists>k < length (x # xs).
     shortestJob x xs = (x # xs) ! k \<and>
     (\<forall>i < length (x # xs). burstTime ((x # xs) ! k) \<le> burstTime ((x # xs) ! i)) \<and>
     (\<forall>i < k. burstTime ((x # xs) ! k) < burstTime ((x # xs) ! i))"
proof (induction xs rule: rev_induct)
  case Nil
  show ?case by (simp add: shortestJob_def)
next
  case (snoc y ys)
  let ?l = "x # ys"
  let ?l' = "x # ys @ [y]"
  from snoc obtain k where k: "k < length ?l" "shortestJob x ys = ?l ! k"
    and least: "\<forall>i < length ?l. burstTime (?l ! k) \<le> burstTime (?l ! i)"
    and first: "\<forall>i < k. burstTime (?l ! k) < burstTime (?l ! i)"
    by blast
  have old: "?l' ! i = ?l ! i" if "i < length ?l" for i
    using that nth_append [of ?l "[y]" i] by simp
  have new: "?l' ! length ?l = y"
    using nth_append_length [of ?l y "[]"] by simp
  show ?case
  proof (cases "burstTime y < burstTime (shortestJob x ys)")
    case True
    have "shortestJob x (ys @ [y]) = ?l' ! length ?l"
      using True by (simp only: shortestJob_snoc new if_True)
    moreover have "\<forall>i < length ?l'. burstTime (?l' ! length ?l) \<le> burstTime (?l' ! i)"
    proof (intro allI impI)
      fix i
      assume "i < length ?l'"
      then consider "i < length ?l" | "i = length ?l" by fastforce
      then show "burstTime (?l' ! length ?l) \<le> burstTime (?l' ! i)"
      proof cases
        case 1
        with least have "burstTime (?l ! k) \<le> burstTime (?l ! i)" by blast
        with True k(2) show ?thesis
          unfolding new old [OF 1] by simp
      next
        case 2
        then show ?thesis by simp
      qed
    qed
    moreover have "\<forall>i < length ?l. burstTime (?l' ! length ?l) < burstTime (?l' ! i)"
    proof (intro allI impI)
      fix i
      assume i: "i < length ?l"
      with least have "burstTime (?l ! k) \<le> burstTime (?l ! i)" by blast
      with True k(2) show "burstTime (?l' ! length ?l) < burstTime (?l' ! i)"
        unfolding new old [OF i] by simp
    qed
    ultimately show ?thesis
      by (intro exI [of _ "length ?l"]) simp
  next
    case False
    have kk: "?l' ! k = ?l ! k" using k(1) by (rule old)
    have "shortestJob x (ys @ [y]) = ?l' ! k"
      using False k(2) by (simp only: shortestJob_snoc kk if_False)
    moreover have "\<forall>i < length ?l'. burstTime (?l' ! k) \<le> burstTime (?l' ! i)"
    proof (intro allI impI)
      fix i
      assume "i < length ?l'"
      then consider "i < length ?l" | "i = length ?l" by fastforce
      then show "burstTime (?l' ! k) \<le> burstTime (?l' ! i)"
      proof cases
        case 1
        with least show ?thesis unfolding kk old [OF 1] by blast
      next
        case 2
        with False k(2) show ?thesis unfolding kk 2 new by simp
      qed
    qed
    moreover have "\<forall>i < k. burstTime (?l' ! k) < burstTime (?l' ! i)"
    proof (intro allI impI)
      fix i
      assume i: "i < k"
      with k(1) have "i < length ?l" by simp
      from old [OF this] first i show "burstTime (?l' ! k) < burstTime (?l' ! i)"
        unfolding kk by simp
    qed
    moreover have "k < length ?l'" using k(1) by simp
    ultimately show ?thesis by blast
  qed
qed

lemma sjf_loop_diverges:
  assumes "J st" and step: "\<And>s. J s \<Longrightarrow> card (s_completedProcesses s) < n \<and> J (sjf_body rp s)"
  shows "sjf_loop n rp st = None"
proof (rule ccontr)
  assume "sjf_loop n rp st \<noteq> None"
  then obtain y where y: "sjf_loop n rp st = Some y" by auto
  have "n = n \<and> rp = rp \<and> J st \<longrightarrow> False"
  proof (rule sjf_loop.raw_induct
      [where P = "\<lambda>n' rp' s z. n' = n \<and> rp' = rp \<and> J s \<longrightarrow> False", OF _ y])
    fix f n' rp' s z
    assume ih: "\<And>a b c d. f a b c = Some d \<Longrightarrow> a = n \<and> b = rp \<and> J c \<longrightarrow> False"
      and eq: "(if card (s_completedProcesses s) < n' then f n' rp' (sjf_body rp' s) else Some s)
        = Some z"
    show "n' = n \<and> rp' = rp \<and> J s \<longrightarrow> False"
    proof (intro impI, elim conjE)
      assume e: "n' = n" "rp' = rp" and js: "J s"
      from step [OF js] have c: "card (s_completedProcesses s) < n" and j: "J (sjf_body rp s)"
        by auto
      from eq c e have "f n rp (sjf_body rp s) = Some z" by simp
      from ih [OF this] j show False by simp
    qed
  qed
  with assms(1) show False by simp
qed

text \<open>
  C4, within the safe range. At each iteration of its loop, shortest job first considers the
  processes that have arrived by the clock and are not completed, in input order. When there
  is none, it adds one tick to the clock. Otherwise it runs to completion the first process of
  least burst time among them: one block from the clock to the clock plus the burst time, the
  process completed, the clock at the end of the block. The sums are the ones the program
  computes; they are the exact sums, the clock plus one tick and the clock plus the burst
  time, when these are at most \<open>2 ^ 53\<close> in absolute value. On P1(0, 4), P2(1, 3), P3(2, 1) the
  timeline is P1[0,4), P3[4,5), P2[5,8).
\<close>

theorem sjf_runs_first_shortest_available:
  "availableProcesses rp st =
     filter (\<lambda>p. arrivalTime p \<le> s_currentTime st \<and> id' p \<notin> s_completedProcesses st) rp \<and>
   (availableProcesses rp st = [] \<longrightarrow>
      sjf_body rp st = st\<lparr>s_currentTime := js_add (s_currentTime st) 1\<rparr> \<and>
      (\<bar>s_currentTime st + 1\<bar> \<le> 2 ^ 53 \<longrightarrow>
         sjf_body rp st = st\<lparr>s_currentTime := s_currentTime st + 1\<rparr>)) \<and>
   (availableProcesses rp st \<noteq> [] \<longrightarrow>
      (\<exists>k < length (availableProcesses rp st).
         (\<forall>i < length (availableProcesses rp st).
            burstTime (availableProcesses rp st ! k) \<le> burstTime (availableProcesses rp st ! i)) \<and>
         (\<forall>i < k.
            burstTime (availableProcesses rp st ! k) < burstTime (availableProcesses rp st ! i)) \<and>
         sjf_body rp st = run_to_completion (availableProcesses rp st ! k) st)) \<and>
   s_executionOrder (run_to_completion job st) = s_executionOrder st @
     [\<lparr>processId = id' job, startTime = s_currentTime st,
       endTime = js_add (s_currentTime st) (burstTime job)\<rparr>] \<and>
   s_completedProcesses (run_to_completion job st) = insert (id' job) (s_completedProcesses st) \<and>
   s_currentTime (run_to_completion job st) = js_add (s_currentTime st) (burstTime job) \<and>
   (\<bar>s_currentTime st + burstTime job\<bar> \<le> 2 ^ 53 \<longrightarrow>
      s_executionOrder (run_to_completion job st) = s_executionOrder st @
        [\<lparr>processId = id' job, startTime = s_currentTime st,
          endTime = s_currentTime st + burstTime job\<rparr>] \<and>
      s_currentTime (run_to_completion job st) = s_currentTime st + burstTime job) \<and>
   (card (s_completedProcesses st) < n \<longrightarrow> sjf_loop n rp st = sjf_loop n rp (sjf_body rp st)) \<and>
   map_option executionOrder (scheduleSJF example3) =
     Some [\<lparr>processId = ''P1'', startTime = 0, endTime = 4\<rparr>,
           \<lparr>processId = ''P3'', startTime = 4, endTime = 5\<rparr>,
           \<lparr>processId = ''P2'', startTime = 5, endTime = 8\<rparr>]"
proof -
  let ?av = "availableProcesses rp st"
  have a: "?av = filter (\<lambda>p. arrivalTime p \<le> s_currentTime st \<and>
      id' p \<notin> s_completedProcesses st) rp"
    by (simp add: availableProcesses_def)
  have b: "?av = [] \<longrightarrow>
      sjf_body rp st = st\<lparr>s_currentTime := js_add (s_currentTime st) 1\<rparr> \<and>
      (\<bar>s_currentTime st + 1\<bar> \<le> 2 ^ 53 \<longrightarrow>
         sjf_body rp st = st\<lparr>s_currentTime := s_currentTime st + 1\<rparr>)"
    by (simp add: sjf_body_def js_add_exact)
  have c: "?av \<noteq> [] \<longrightarrow>
      (\<exists>k < length ?av.
         (\<forall>i < length ?av. burstTime (?av ! k) \<le> burstTime (?av ! i)) \<and>
         (\<forall>i < k. burstTime (?av ! k) < burstTime (?av ! i)) \<and>
         sjf_body rp st = run_to_completion (?av ! k) st)"
  proof
    assume "?av \<noteq> []"
    then obtain x xs where av: "?av = x # xs" by (cases ?av) auto
    from shortestJob_first_minimum [of x xs] obtain k where
      "k < length (x # xs)" "shortestJob x xs = (x # xs) ! k"
      "\<forall>i < length (x # xs). burstTime ((x # xs) ! k) \<le> burstTime ((x # xs) ! i)"
      "\<forall>i < k. burstTime ((x # xs) ! k) < burstTime ((x # xs) ! i)"
      by blast
    moreover have "sjf_body rp st = run_to_completion (shortestJob x xs) st"
      by (simp add: sjf_body_def av)
    ultimately show "\<exists>k < length ?av.
         (\<forall>i < length ?av. burstTime (?av ! k) \<le> burstTime (?av ! i)) \<and>
         (\<forall>i < k. burstTime (?av ! k) < burstTime (?av ! i)) \<and>
         sjf_body rp st = run_to_completion (?av ! k) st"
      unfolding av by (intro exI [of _ k]) simp
  qed
  have d: "s_executionOrder (run_to_completion job st) = s_executionOrder st @
     [\<lparr>processId = id' job, startTime = s_currentTime st,
       endTime = js_add (s_currentTime st) (burstTime job)\<rparr>]"
    and e: "s_completedProcesses (run_to_completion job st) = insert (id' job) (s_completedProcesses st)"
    and f: "s_currentTime (run_to_completion job st) = js_add (s_currentTime st) (burstTime job)"
    by (simp_all add: run_to_completion_def Let_def)
  have x: "\<bar>s_currentTime st + burstTime job\<bar> \<le> 2 ^ 53 \<longrightarrow>
      s_executionOrder (run_to_completion job st) = s_executionOrder st @
        [\<lparr>processId = id' job, startTime = s_currentTime st,
          endTime = s_currentTime st + burstTime job\<rparr>] \<and>
      s_currentTime (run_to_completion job st) = s_currentTime st + burstTime job"
    unfolding d f by (simp add: js_add_exact)
  have g: "card (s_completedProcesses st) < n \<longrightarrow> sjf_loop n rp st = sjf_loop n rp (sjf_body rp st)"
    by (subst sjf_loop.simps) simp
  have h: "map_option executionOrder (scheduleSJF example3) =
     Some [\<lparr>processId = ''P1'', startTime = 0, endTime = 4\<rparr>,
           \<lparr>processId = ''P3'', startTime = 4, endTime = 5\<rparr>,
           \<lparr>processId = ''P2'', startTime = 5, endTime = 8\<rparr>]"
    by (simp add: scheduleSJF_def example3_def sjf_loop.simps sjf_body_def sel_init_def
        availableProcesses_def withRemaining_def shortestJob_def run_to_completion_def
        js_add_exact js_sub_exact)
  show ?thesis
    by (intro conjI a b c d e f x g h)
qed

theorem sjf_runs_first_shortest_available_witness:
  "availableProcesses (map withRemaining example3) example3_at_4 =
     [withRemaining \<lparr>id' = ''P2'', arrivalTime = 1, burstTime = 3, priority = Some 1\<rparr>,
      withRemaining \<lparr>id' = ''P3'', arrivalTime = 2, burstTime = 1, priority = Some 3\<rparr>] \<and>
   (\<exists>k < length (availableProcesses (map withRemaining example3) example3_at_4).
      id' (availableProcesses (map withRemaining example3) example3_at_4 ! k) = ''P3'' \<and>
      sjf_body (map withRemaining example3) example3_at_4 =
        run_to_completion (availableProcesses (map withRemaining example3) example3_at_4 ! k)
          example3_at_4) \<and>
   s_executionOrder (run_to_completion
       (withRemaining \<lparr>id' = ''P3'', arrivalTime = 2, burstTime = 1, priority = Some 3\<rparr>)
       example3_at_4) =
     [\<lparr>processId = ''P1'', startTime = 0, endTime = 4\<rparr>,
      \<lparr>processId = ''P3'', startTime = 4, endTime = 5\<rparr>] \<and>
   s_currentTime (run_to_completion
       (withRemaining \<lparr>id' = ''P3'', arrivalTime = 2, burstTime = 1, priority = Some 3\<rparr>)
       example3_at_4) = 5 \<and>
   availableProcesses (map withRemaining late_arrival) sel_init = [] \<and>
   sjf_body (map withRemaining late_arrival) sel_init = sel_init\<lparr>s_currentTime := 1\<rparr> \<and>
   sjf_loop 1 (map withRemaining late_arrival) sel_init =
     sjf_loop 1 (map withRemaining late_arrival)
       (sjf_body (map withRemaining late_arrival) sel_init)"
proof -
  let ?rp = "map withRemaining example3"
  let ?av = "availableProcesses ?rp example3_at_4"
  let ?late = "map withRemaining late_arrival"
  let ?p3 = "withRemaining \<lparr>id' = ''P3'', arrivalTime = 2, burstTime = 1, priority = Some 3\<rparr>"
  have av: "?av =
     [withRemaining \<lparr>id' = ''P2'', arrivalTime = 1, burstTime = 3, priority = Some 1\<rparr>,
      withRemaining \<lparr>id' = ''P3'', arrivalTime = 2, burstTime = 1, priority = Some 3\<rparr>]"
    by (simp add: availableProcesses_def example3_def example3_at_4_def)
  then have ne: "?av \<noteq> []" by simp
  note t = sjf_runs_first_shortest_available [of ?rp example3_at_4 ?p3]
  from t ne obtain k where k: "k < length ?av"
    "\<forall>i < length ?av. burstTime (?av ! k) \<le> burstTime (?av ! i)"
    "sjf_body ?rp example3_at_4 = run_to_completion (?av ! k) example3_at_4"
    by blast
  from k(1) av have "k = 0 \<or> k = 1" by auto
  moreover have "1 < length ?av" using av by simp
  with k(2) have "burstTime (?av ! k) \<le> burstTime (?av ! 1)" by blast
  ultimately have "id' (?av ! k) = ''P3''"
    unfolding av by auto
  with k have sel: "\<exists>k < length ?av. id' (?av ! k) = ''P3'' \<and>
      sjf_body ?rp example3_at_4 = run_to_completion (?av ! k) example3_at_4"
    by blast
  have bound: "\<bar>s_currentTime example3_at_4 + burstTime ?p3\<bar> \<le> 2 ^ 53"
    by (simp add: example3_at_4_def)
  from t bound have run: "s_executionOrder (run_to_completion ?p3 example3_at_4) =
      s_executionOrder example3_at_4 @
        [\<lparr>processId = id' ?p3, startTime = s_currentTime example3_at_4,
          endTime = s_currentTime example3_at_4 + burstTime ?p3\<rparr>]"
    "s_currentTime (run_to_completion ?p3 example3_at_4) =
      s_currentTime example3_at_4 + burstTime ?p3"
    by blast+
  have r1: "s_executionOrder (run_to_completion ?p3 example3_at_4) =
     [\<lparr>processId = ''P1'', startTime = 0, endTime = 4\<rparr>,
      \<lparr>processId = ''P3'', startTime = 4, endTime = 5\<rparr>]"
    unfolding run by (simp add: example3_at_4_def)
  have r2: "s_currentTime (run_to_completion ?p3 example3_at_4) = 5"
    unfolding run by (simp add: example3_at_4_def)
  have none: "availableProcesses ?late sel_init = []"
    by (simp add: availableProcesses_def late_arrival_def sel_init_def)
  note u = sjf_runs_first_shortest_available [of ?late sel_init _ 1]
  have tick: "\<bar>s_currentTime sel_init + 1\<bar> \<le> 2 ^ 53"
    by (simp add: sel_init_def)
  from u none tick
  have "sjf_body ?late sel_init = sel_init\<lparr>s_currentTime := s_currentTime sel_init + 1\<rparr>"
    by blast
  then have idle: "sjf_body ?late sel_init = sel_init\<lparr>s_currentTime := 1\<rparr>"
    by (simp add: sel_init_def)
  have "card (s_completedProcesses sel_init) < 1"
    by (simp add: sel_init_def)
  with u have loop: "sjf_loop 1 ?late sel_init = sjf_loop 1 ?late (sjf_body ?late sel_init)"
    by blast
  show ?thesis
    by (intro conjI av sel r1 r2 none idle loop)
qed

text \<open>
  At \<open>2 ^ 53\<close> the idle tick does not advance the clock. On P1(0, \<open>2 ^ 53\<close>), P2(\<open>2 ^ 53 + 2\<close>, 1),
  which meets the preconditions, the first iteration runs P1 to its end at \<open>2 ^ 53\<close>. No process
  is then available, P2 arriving two ticks later, and the clock plus 1 is \<open>2 ^ 53\<close> again: the
  iteration leaves the state as it is, and shortest job first does not return.
\<close>

theorem sjf_clock_is_stuck_at_2_53:
  "preconditions long_then_late \<and>
   sjf_body (map withRemaining long_then_late) sel_init = long_then_late_waiting \<and>
   s_currentTime long_then_late_waiting = 9007199254740992 \<and>
   availableProcesses (map withRemaining long_then_late) long_then_late_waiting = [] \<and>
   sjf_body (map withRemaining long_then_late) long_then_late_waiting = long_then_late_waiting \<and>
   scheduleSJF long_then_late = None"
proof -
  let ?rp = "map withRemaining long_then_late"
  have p: "preconditions long_then_late"
    by (simp add: preconditions_def long_then_late_def)
  have first: "sjf_body ?rp sel_init = long_then_late_waiting"
    by (simp add: sjf_body_def long_then_late_def long_then_late_waiting_def sel_init_def
        availableProcesses_def shortestJob_def run_to_completion_def withRemaining_def
        js_add_exact js_sub_exact)
  have t: "s_currentTime long_then_late_waiting = 9007199254740992"
    by (simp add: long_then_late_waiting_def)
  have none: "availableProcesses ?rp long_then_late_waiting = []"
    by (simp add: availableProcesses_def long_then_late_def long_then_late_waiting_def)
  have stay: "sjf_body ?rp long_then_late_waiting = long_then_late_waiting"
    by (simp add: sjf_body_def none) (simp add: long_then_late_waiting_def)
  have c0: "card (s_completedProcesses sel_init) < length long_then_late"
    by (simp add: sel_init_def long_then_late_def)
  have c: "card (s_completedProcesses long_then_late_waiting) < length long_then_late"
    by (simp add: long_then_late_waiting_def long_then_late_def)
  have "sjf_loop (length long_then_late) ?rp long_then_late_waiting = None"
  proof (rule sjf_loop_diverges [of "\<lambda>s. s = long_then_late_waiting"])
    show "long_then_late_waiting = long_then_late_waiting" ..
  next
    fix s
    assume "s = long_then_late_waiting"
    with c stay show "card (s_completedProcesses s) < length long_then_late \<and>
        sjf_body ?rp s = long_then_late_waiting"
      by simp
  qed
  then have "sjf_loop (length long_then_late) ?rp sel_init = None"
    using c0 first by (subst sjf_loop.simps) simp
  then have n: "scheduleSJF long_then_late = None"
    by (simp add: scheduleSJF_def)
  show ?thesis
    by (intro conjI p first t none stay n)
qed

text \<open>
  C5, within the safe range. At each iteration round robin first appends to the ready queue,
  in the order of the arrival-sorted list, the processes that have arrived by the clock. It
  then takes the head of the queue, runs it for the smaller of the quantum and its remaining
  time (one block from the clock, the clock advanced by that amount), appends the processes
  that arrived by the new clock, and only then appends the process it ran, when that still has
  remaining time; when not, it emits the metrics of the process with the end of this block as
  completion time. The sum and the difference are the ones the program computes; they are the
  clock plus that amount, and the remaining time minus it, when these are at most \<open>2 ^ 53\<close> in
  absolute value. With quantum 2 on P1(0, 4), P2(1, 3), P3(2, 1) the timeline is P1[0,2),
  P2[2,4), P3[4,5), P1[5,7), P2[7,8), and the completion time of each process is the end of its
  last block.
\<close>

theorem round_robin_runs_head_for_quantum:
  "arrived pq i t = takeWhile (\<lambda>p. arrivalTime p \<le> t) (drop i pq) \<and>
   r_readyQueue (enqueue_arrived pq s) =
     r_readyQueue s @ arrived pq (r_processIndex s) (r_currentTime s) \<and>
   (r_readyQueue (enqueue_arrived pq s) = cur # rest \<longrightarrow>
      r_executionOrder (rr_body pq tq s) = r_executionOrder s @
        [\<lparr>processId = id' cur, startTime = r_currentTime s,
          endTime = js_add (r_currentTime s) (min tq (remainingTime cur))\<rparr>] \<and>
      r_currentTime (rr_body pq tq s) = js_add (r_currentTime s) (min tq (remainingTime cur)) \<and>
      r_readyQueue (rr_body pq tq s) =
        rest @
        arrived pq (r_processIndex (enqueue_arrived pq s))
          (js_add (r_currentTime s) (min tq (remainingTime cur))) @
        (if 0 < js_sub (remainingTime cur) (min tq (remainingTime cur))
         then [cur\<lparr>remainingTime := js_sub (remainingTime cur) (min tq (remainingTime cur))\<rparr>]
         else []) \<and>
      map (\<lambda>m. (id' m, completionTime m)) (r_processMetrics (rr_body pq tq s)) =
        map (\<lambda>m. (id' m, completionTime m)) (r_processMetrics s) @
        (if 0 < js_sub (remainingTime cur) (min tq (remainingTime cur)) then []
         else [(id' cur, js_add (r_currentTime s) (min tq (remainingTime cur)))]) \<and>
      (\<bar>r_currentTime s + min tq (remainingTime cur)\<bar> \<le> 2 ^ 53 \<and>
       \<bar>remainingTime cur - min tq (remainingTime cur)\<bar> \<le> 2 ^ 53 \<longrightarrow>
         r_executionOrder (rr_body pq tq s) = r_executionOrder s @
           [\<lparr>processId = id' cur, startTime = r_currentTime s,
             endTime = r_currentTime s + min tq (remainingTime cur)\<rparr>] \<and>
         r_currentTime (rr_body pq tq s) = r_currentTime s + min tq (remainingTime cur) \<and>
         r_readyQueue (rr_body pq tq s) =
           rest @
           arrived pq (r_processIndex (enqueue_arrived pq s))
             (r_currentTime s + min tq (remainingTime cur)) @
           (if 0 < remainingTime cur - min tq (remainingTime cur)
            then [cur\<lparr>remainingTime := remainingTime cur - min tq (remainingTime cur)\<rparr>] else []) \<and>
         map (\<lambda>m. (id' m, completionTime m)) (r_processMetrics (rr_body pq tq s)) =
           map (\<lambda>m. (id' m, completionTime m)) (r_processMetrics s) @
           (if 0 < remainingTime cur - min tq (remainingTime cur) then []
            else [(id' cur, r_currentTime s + min tq (remainingTime cur))]))) \<and>
   map_option executionOrder (scheduleRoundRobin example3 2) =
     Some [\<lparr>processId = ''P1'', startTime = 0, endTime = 2\<rparr>,
           \<lparr>processId = ''P2'', startTime = 2, endTime = 4\<rparr>,
           \<lparr>processId = ''P3'', startTime = 4, endTime = 5\<rparr>,
           \<lparr>processId = ''P1'', startTime = 5, endTime = 7\<rparr>,
           \<lparr>processId = ''P2'', startTime = 7, endTime = 8\<rparr>] \<and>
   map_option (\<lambda>r. map (\<lambda>m. (id' m, completionTime m)) (processMetrics r))
       (scheduleRoundRobin example3 2) =
     Some [(''P3'', 5), (''P1'', 7), (''P2'', 8)] \<and>
   map_option (\<lambda>r. map (\<lambda>m. completionTime m =
         endTime (last (filter (\<lambda>b. processId b = id' m) (executionOrder r)))) (processMetrics r))
       (scheduleRoundRobin example3 2) =
     Some [True, True, True]"
proof -
  have a: "arrived pq i t = takeWhile (\<lambda>p. arrivalTime p \<le> t) (drop i pq)"
    by (simp add: arrived_def)
  have b: "r_readyQueue (enqueue_arrived pq s) =
      r_readyQueue s @ arrived pq (r_processIndex s) (r_currentTime s)"
    and i1: "r_processIndex (enqueue_arrived pq s) =
      r_processIndex s + length (arrived pq (r_processIndex s) (r_currentTime s))"
    by (simp_all add: enqueue_arrived_eq)
  have c: "r_readyQueue (enqueue_arrived pq s) = cur # rest \<longrightarrow>
      r_executionOrder (rr_body pq tq s) = r_executionOrder s @
        [\<lparr>processId = id' cur, startTime = r_currentTime s,
          endTime = js_add (r_currentTime s) (min tq (remainingTime cur))\<rparr>] \<and>
      r_currentTime (rr_body pq tq s) = js_add (r_currentTime s) (min tq (remainingTime cur)) \<and>
      r_readyQueue (rr_body pq tq s) =
        rest @
        arrived pq (r_processIndex (enqueue_arrived pq s))
          (js_add (r_currentTime s) (min tq (remainingTime cur))) @
        (if 0 < js_sub (remainingTime cur) (min tq (remainingTime cur))
         then [cur\<lparr>remainingTime := js_sub (remainingTime cur) (min tq (remainingTime cur))\<rparr>]
         else []) \<and>
      map (\<lambda>m. (id' m, completionTime m)) (r_processMetrics (rr_body pq tq s)) =
        map (\<lambda>m. (id' m, completionTime m)) (r_processMetrics s) @
        (if 0 < js_sub (remainingTime cur) (min tq (remainingTime cur)) then []
         else [(id' cur, js_add (r_currentTime s) (min tq (remainingTime cur)))]) \<and>
      (\<bar>r_currentTime s + min tq (remainingTime cur)\<bar> \<le> 2 ^ 53 \<and>
       \<bar>remainingTime cur - min tq (remainingTime cur)\<bar> \<le> 2 ^ 53 \<longrightarrow>
         r_executionOrder (rr_body pq tq s) = r_executionOrder s @
           [\<lparr>processId = id' cur, startTime = r_currentTime s,
             endTime = r_currentTime s + min tq (remainingTime cur)\<rparr>] \<and>
         r_currentTime (rr_body pq tq s) = r_currentTime s + min tq (remainingTime cur) \<and>
         r_readyQueue (rr_body pq tq s) =
           rest @
           arrived pq (r_processIndex (enqueue_arrived pq s))
             (r_currentTime s + min tq (remainingTime cur)) @
           (if 0 < remainingTime cur - min tq (remainingTime cur)
            then [cur\<lparr>remainingTime := remainingTime cur - min tq (remainingTime cur)\<rparr>] else []) \<and>
         map (\<lambda>m. (id' m, completionTime m)) (r_processMetrics (rr_body pq tq s)) =
           map (\<lambda>m. (id' m, completionTime m)) (r_processMetrics s) @
           (if 0 < remainingTime cur - min tq (remainingTime cur) then []
            else [(id' cur, r_currentTime s + min tq (remainingTime cur))]))"
  proof
    assume "r_readyQueue (enqueue_arrived pq s) = cur # rest"
    then have run: "r_readyQueue s @ arrived pq (r_processIndex s) (r_currentTime s) = cur # rest"
      by (simp only: b)
    note body = rr_body_run [OF run, of tq]
    have js: "r_executionOrder (rr_body pq tq s) = r_executionOrder s @
        [\<lparr>processId = id' cur, startTime = r_currentTime s,
          endTime = js_add (r_currentTime s) (min tq (remainingTime cur))\<rparr>] \<and>
      r_currentTime (rr_body pq tq s) = js_add (r_currentTime s) (min tq (remainingTime cur)) \<and>
      r_readyQueue (rr_body pq tq s) =
        rest @
        arrived pq (r_processIndex (enqueue_arrived pq s))
          (js_add (r_currentTime s) (min tq (remainingTime cur))) @
        (if 0 < js_sub (remainingTime cur) (min tq (remainingTime cur))
         then [cur\<lparr>remainingTime := js_sub (remainingTime cur) (min tq (remainingTime cur))\<rparr>]
         else []) \<and>
      map (\<lambda>m. (id' m, completionTime m)) (r_processMetrics (rr_body pq tq s)) =
        map (\<lambda>m. (id' m, completionTime m)) (r_processMetrics s) @
        (if 0 < js_sub (remainingTime cur) (min tq (remainingTime cur)) then []
         else [(id' cur, js_add (r_currentTime s) (min tq (remainingTime cur)))])"
      unfolding body i1 by simp
    have exact: "r_executionOrder (rr_body pq tq s) = r_executionOrder s @
        [\<lparr>processId = id' cur, startTime = r_currentTime s,
          endTime = r_currentTime s + min tq (remainingTime cur)\<rparr>] \<and>
      r_currentTime (rr_body pq tq s) = r_currentTime s + min tq (remainingTime cur) \<and>
      r_readyQueue (rr_body pq tq s) =
        rest @
        arrived pq (r_processIndex (enqueue_arrived pq s))
          (r_currentTime s + min tq (remainingTime cur)) @
        (if 0 < remainingTime cur - min tq (remainingTime cur)
         then [cur\<lparr>remainingTime := remainingTime cur - min tq (remainingTime cur)\<rparr>] else []) \<and>
      map (\<lambda>m. (id' m, completionTime m)) (r_processMetrics (rr_body pq tq s)) =
        map (\<lambda>m. (id' m, completionTime m)) (r_processMetrics s) @
        (if 0 < remainingTime cur - min tq (remainingTime cur) then []
         else [(id' cur, r_currentTime s + min tq (remainingTime cur))])"
      if "\<bar>r_currentTime s + min tq (remainingTime cur)\<bar> \<le> 2 ^ 53 \<and>
       \<bar>remainingTime cur - min tq (remainingTime cur)\<bar> \<le> 2 ^ 53"
    proof -
      from that have add: "js_add (r_currentTime s) (min tq (remainingTime cur)) =
          r_currentTime s + min tq (remainingTime cur)"
        and sub: "js_sub (remainingTime cur) (min tq (remainingTime cur)) =
          remainingTime cur - min tq (remainingTime cur)"
        by (simp_all add: js_add_exact js_sub_exact)
      from js show ?thesis
        unfolding add sub .
    qed
    from js exact show "r_executionOrder (rr_body pq tq s) = r_executionOrder s @
        [\<lparr>processId = id' cur, startTime = r_currentTime s,
          endTime = js_add (r_currentTime s) (min tq (remainingTime cur))\<rparr>] \<and>
      r_currentTime (rr_body pq tq s) = js_add (r_currentTime s) (min tq (remainingTime cur)) \<and>
      r_readyQueue (rr_body pq tq s) =
        rest @
        arrived pq (r_processIndex (enqueue_arrived pq s))
          (js_add (r_currentTime s) (min tq (remainingTime cur))) @
        (if 0 < js_sub (remainingTime cur) (min tq (remainingTime cur))
         then [cur\<lparr>remainingTime := js_sub (remainingTime cur) (min tq (remainingTime cur))\<rparr>]
         else []) \<and>
      map (\<lambda>m. (id' m, completionTime m)) (r_processMetrics (rr_body pq tq s)) =
        map (\<lambda>m. (id' m, completionTime m)) (r_processMetrics s) @
        (if 0 < js_sub (remainingTime cur) (min tq (remainingTime cur)) then []
         else [(id' cur, js_add (r_currentTime s) (min tq (remainingTime cur)))]) \<and>
      (\<bar>r_currentTime s + min tq (remainingTime cur)\<bar> \<le> 2 ^ 53 \<and>
       \<bar>remainingTime cur - min tq (remainingTime cur)\<bar> \<le> 2 ^ 53 \<longrightarrow>
         r_executionOrder (rr_body pq tq s) = r_executionOrder s @
           [\<lparr>processId = id' cur, startTime = r_currentTime s,
             endTime = r_currentTime s + min tq (remainingTime cur)\<rparr>] \<and>
         r_currentTime (rr_body pq tq s) = r_currentTime s + min tq (remainingTime cur) \<and>
         r_readyQueue (rr_body pq tq s) =
           rest @
           arrived pq (r_processIndex (enqueue_arrived pq s))
             (r_currentTime s + min tq (remainingTime cur)) @
           (if 0 < remainingTime cur - min tq (remainingTime cur)
            then [cur\<lparr>remainingTime := remainingTime cur - min tq (remainingTime cur)\<rparr>] else []) \<and>
         map (\<lambda>m. (id' m, completionTime m)) (r_processMetrics (rr_body pq tq s)) =
           map (\<lambda>m. (id' m, completionTime m)) (r_processMetrics s) @
           (if 0 < remainingTime cur - min tq (remainingTime cur) then []
            else [(id' cur, r_currentTime s + min tq (remainingTime cur))]))"
      by blast
  qed
  have r: "scheduleRoundRobin example3 2 = Some (calculateAverages
      [\<lparr>processId = ''P1'', startTime = 0, endTime = 2\<rparr>,
       \<lparr>processId = ''P2'', startTime = 2, endTime = 4\<rparr>,
       \<lparr>processId = ''P3'', startTime = 4, endTime = 5\<rparr>,
       \<lparr>processId = ''P1'', startTime = 5, endTime = 7\<rparr>,
       \<lparr>processId = ''P2'', startTime = 7, endTime = 8\<rparr>]
      [\<lparr>id' = ''P3'', arrivalTime = 2, burstTime = 1, priority = Some 3,
        completionTime = 5, turnaroundTime = 3, waitingTime = 2\<rparr>,
       \<lparr>id' = ''P1'', arrivalTime = 0, burstTime = 4, priority = Some 2,
        completionTime = 7, turnaroundTime = 7, waitingTime = 3\<rparr>,
       \<lparr>id' = ''P2'', arrivalTime = 1, burstTime = 3, priority = Some 1,
        completionTime = 8, turnaroundTime = 7, waitingTime = 4\<rparr>])"
    by (simp add: scheduleRoundRobin_def example3_def rr_loop.simps rr_body_def rr_cond_def
        rr_init_def enqueue_arrived.simps withRemaining_def js_add_exact js_sub_exact)
  have d: "map_option executionOrder (scheduleRoundRobin example3 2) =
     Some [\<lparr>processId = ''P1'', startTime = 0, endTime = 2\<rparr>,
           \<lparr>processId = ''P2'', startTime = 2, endTime = 4\<rparr>,
           \<lparr>processId = ''P3'', startTime = 4, endTime = 5\<rparr>,
           \<lparr>processId = ''P1'', startTime = 5, endTime = 7\<rparr>,
           \<lparr>processId = ''P2'', startTime = 7, endTime = 8\<rparr>]"
    and e: "map_option (\<lambda>r. map (\<lambda>m. (id' m, completionTime m)) (processMetrics r))
       (scheduleRoundRobin example3 2) =
     Some [(''P3'', 5), (''P1'', 7), (''P2'', 8)]"
    and f: "map_option (\<lambda>r. map (\<lambda>m. completionTime m =
         endTime (last (filter (\<lambda>b. processId b = id' m) (executionOrder r)))) (processMetrics r))
       (scheduleRoundRobin example3 2) =
     Some [True, True, True]"
    unfolding r by simp_all
  show ?thesis
    by (intro conjI a b c d e f)
qed

theorem round_robin_runs_head_for_quantum_witness:
  "r_readyQueue (enqueue_arrived (map withRemaining example3) rr_init) =
     [withRemaining \<lparr>id' = ''P1'', arrivalTime = 0, burstTime = 4, priority = Some 2\<rparr>] \<and>
   r_executionOrder (rr_body (map withRemaining example3) 2 rr_init) =
     [\<lparr>processId = ''P1'', startTime = 0, endTime = 2\<rparr>] \<and>
   r_currentTime (rr_body (map withRemaining example3) 2 rr_init) = 2 \<and>
   map id' (r_readyQueue (rr_body (map withRemaining example3) 2 rr_init)) =
     [''P2'', ''P3'', ''P1''] \<and>
   map remainingTime (r_readyQueue (rr_body (map withRemaining example3) 2 rr_init)) = [3, 1, 2]"
proof -
  let ?pq = "map withRemaining example3"
  let ?p1 = "withRemaining \<lparr>id' = ''P1'', arrivalTime = 0, burstTime = 4, priority = Some 2\<rparr>"
  note t = round_robin_runs_head_for_quantum [of ?pq _ _ rr_init ?p1 "[]" 2]
  have q: "r_readyQueue (enqueue_arrived ?pq rr_init) = [?p1]"
    using t by (simp add: example3_def rr_init_def)
  have i: "r_processIndex (enqueue_arrived ?pq rr_init) = 1"
    by (simp add: enqueue_arrived.simps example3_def rr_init_def)
  have bound: "\<bar>r_currentTime rr_init + min 2 (remainingTime ?p1)\<bar> \<le> 2 ^ 53 \<and>
      \<bar>remainingTime ?p1 - min 2 (remainingTime ?p1)\<bar> \<le> 2 ^ 53"
    by (simp add: rr_init_def)
  from t q bound have step: "r_executionOrder (rr_body ?pq 2 rr_init) = r_executionOrder rr_init @
        [\<lparr>processId = id' ?p1, startTime = r_currentTime rr_init,
          endTime = r_currentTime rr_init + min 2 (remainingTime ?p1)\<rparr>]"
      "r_currentTime (rr_body ?pq 2 rr_init) = r_currentTime rr_init + min 2 (remainingTime ?p1)"
      "r_readyQueue (rr_body ?pq 2 rr_init) =
        [] @
        arrived ?pq (r_processIndex (enqueue_arrived ?pq rr_init))
          (r_currentTime rr_init + min 2 (remainingTime ?p1)) @
        (if 0 < remainingTime ?p1 - min 2 (remainingTime ?p1)
         then [?p1\<lparr>remainingTime := remainingTime ?p1 - min 2 (remainingTime ?p1)\<rparr>] else [])"
    by blast+
  have a: "r_executionOrder (rr_body ?pq 2 rr_init) =
      [\<lparr>processId = ''P1'', startTime = 0, endTime = 2\<rparr>]"
    unfolding step by (simp add: rr_init_def)
  have b: "r_currentTime (rr_body ?pq 2 rr_init) = 2"
    unfolding step by (simp add: rr_init_def)
  have c: "map id' (r_readyQueue (rr_body ?pq 2 rr_init)) = [''P2'', ''P3'', ''P1'']"
    and d: "map remainingTime (r_readyQueue (rr_body ?pq 2 rr_init)) = [3, 1, 2]"
    unfolding step i by (simp_all add: rr_init_def arrived_def example3_def)
  show ?thesis
    by (intro conjI q a b c d)
qed

text \<open>
  Beyond the safe range the clock need not advance by the amount a process runs. On
  P1(0, \<open>2 ^ 53\<close>), P2(0, 1), which meets the preconditions, with quantum \<open>2 ^ 53\<close>, round robin
  runs P1 to \<open>2 ^ 53\<close> and then P2 for the smaller of the quantum and its remaining time, which
  is 1: the clock plus 1 is \<open>2 ^ 53\<close> again, the block of P2 is empty and P2 completes at
  \<open>2 ^ 53\<close>.
\<close>

theorem round_robin_block_is_empty_past_2_53:
  "preconditions long_then_short \<and>
   map_option executionOrder (scheduleRoundRobin long_then_short 9007199254740992) =
     Some [\<lparr>processId = ''P1'', startTime = 0, endTime = 9007199254740992\<rparr>,
           \<lparr>processId = ''P2'', startTime = 9007199254740992, endTime = 9007199254740992\<rparr>] \<and>
   map_option (\<lambda>r. map (\<lambda>m. (id' m, completionTime m)) (processMetrics r))
       (scheduleRoundRobin long_then_short 9007199254740992) =
     Some [(''P1'', 9007199254740992), (''P2'', 9007199254740992)]"
proof -
  have p: "preconditions long_then_short"
    by (simp add: preconditions_def long_then_short_def)
  have r: "scheduleRoundRobin long_then_short 9007199254740992 = Some (calculateAverages
      [\<lparr>processId = ''P1'', startTime = 0, endTime = 9007199254740992\<rparr>,
       \<lparr>processId = ''P2'', startTime = 9007199254740992, endTime = 9007199254740992\<rparr>]
      [\<lparr>id' = ''P1'', arrivalTime = 0, burstTime = 9007199254740992, priority = None,
        completionTime = 9007199254740992, turnaroundTime = 9007199254740992,
        waitingTime = 0\<rparr>,
       \<lparr>id' = ''P2'', arrivalTime = 0, burstTime = 1, priority = None,
        completionTime = 9007199254740992, turnaroundTime = 9007199254740992,
        waitingTime = 9007199254740991\<rparr>])"
    by (simp add: scheduleRoundRobin_def long_then_short_def rr_loop.simps rr_body_def
        rr_cond_def rr_init_def enqueue_arrived.simps withRemaining_def js_add_exact js_sub_exact)
  have a: "map_option executionOrder (scheduleRoundRobin long_then_short 9007199254740992) =
     Some [\<lparr>processId = ''P1'', startTime = 0, endTime = 9007199254740992\<rparr>,
           \<lparr>processId = ''P2'', startTime = 9007199254740992, endTime = 9007199254740992\<rparr>]"
    and b: "map_option (\<lambda>r. map (\<lambda>m. (id' m, completionTime m)) (processMetrics r))
       (scheduleRoundRobin long_then_short 9007199254740992) =
     Some [(''P1'', 9007199254740992), (''P2'', 9007199254740992)]"
    unfolding r by simp_all
  show ?thesis
    by (intro conjI p a b)
qed

section \<open>Preemption in shortest remaining time first\<close>

lemma example2_at_1_reached: "srtf_body (srtf_init example2) = example2_at_1"
  by (simp add: srtf_body_def srtf_tick_def srtf_choice_def preempted_def shortestRemaining_def
      eligible_def srtf_init_def example2_def example2_at_1_def withRemaining_def Let_def)

lemma shorter_at_1_reached:
  "srtf_body (srtf_init
     (example2 @ [\<lparr>id' = ''P3'', arrivalTime = 1, burstTime = 2, priority = None\<rparr>]))
   = shorter_at_1"
  by (simp add: srtf_body_def srtf_tick_def srtf_choice_def preempted_def shortestRemaining_def
      eligible_def srtf_init_def example2_def shorter_at_1_def withRemaining_def Let_def)

lemma shortestRemaining_least:
  "shortestRemaining ps x xs \<in> set (x # xs) \<and>
   (\<forall>i \<in> set (x # xs). remainingTime (ps ! shortestRemaining ps x xs) \<le> remainingTime (ps ! i))"
proof (induction xs rule: rev_induct)
  case Nil
  show ?case by (simp add: shortestRemaining_def)
next
  case (snoc y ys)
  have step: "shortestRemaining ps x (ys @ [y]) =
      (if remainingTime (ps ! y) < remainingTime (ps ! shortestRemaining ps x ys) then y
       else shortestRemaining ps x ys)"
    by (simp add: shortestRemaining_def)
  show ?case
  proof (cases "remainingTime (ps ! y) < remainingTime (ps ! shortestRemaining ps x ys)")
    case True
    with snoc show ?thesis
      unfolding step by fastforce
  next
    case False
    with snoc show ?thesis
      unfolding step by fastforce
  qed
qed

lemma eligible_iff:
  "i \<in> set (eligible st) \<longleftrightarrow>
     i < length (p_processes st) \<and> arrivalTime (p_processes st ! i) \<le> p_currentTime st \<and>
     0 < remainingTime (p_processes st ! i)"
  by (auto simp: eligible_def)

lemma srtf_init_inv: "srtf_inv (srtf_init ps)"
  by (simp add: srtf_inv_def srtf_init_def)

lemma srtf_choice_least:
  assumes inv: "srtf_inv st" and el: "eligible st = first # rest"
  shows "fst (srtf_choice st (shortestRemaining (p_processes st) first rest)) \<in> set (eligible st)"
    and "\<forall>i \<in> set (eligible st).
           remainingTime (p_processes st !
               fst (srtf_choice st (shortestRemaining (p_processes st) first rest)))
             \<le> remainingTime (p_processes st ! i)"
proof -
  let ?ps = "p_processes st"
  let ?best = "shortestRemaining ?ps first rest"
  from shortestRemaining_least [of ?ps first rest]
  have b: "?best \<in> set (eligible st)"
    and least: "\<forall>i \<in> set (eligible st). remainingTime (?ps ! ?best) \<le> remainingTime (?ps ! i)"
    unfolding el by simp_all
  show "fst (srtf_choice st ?best) \<in> set (eligible st)"
  proof (cases "p_running st")
    case None
    with b show ?thesis by (simp add: srtf_choice_def)
  next
    case (Some a)
    obtain r since where a: "a = (r, since)" by (cases a)
    from inv Some a have "r \<in> set (eligible st)"
      by (simp add: srtf_inv_def eligible_iff)
    with b Some a show ?thesis by (simp add: srtf_choice_def)
  qed
  show "\<forall>i \<in> set (eligible st).
      remainingTime (?ps ! fst (srtf_choice st ?best)) \<le> remainingTime (?ps ! i)"
  proof (cases "p_running st")
    case None
    with least show ?thesis by (simp add: srtf_choice_def)
  next
    case (Some a)
    obtain r since where a: "a = (r, since)" by (cases a)
    show ?thesis
    proof (cases "remainingTime (?ps ! ?best) < remainingTime (?ps ! r)")
      case True
      with least Some a show ?thesis by (simp add: srtf_choice_def)
    next
      case False
      with least have "\<forall>i \<in> set (eligible st). remainingTime (?ps ! r) \<le> remainingTime (?ps ! i)"
        by fastforce
      with False Some a show ?thesis by (simp add: srtf_choice_def)
    qed
  qed
qed

lemma srtf_tick_running:
  assumes "srtf_choice st best = (cur, since)"
    and "p_running (srtf_tick st best) = Some (c, s)"
  shows "c = cur" and "0 < remainingTime (p_processes st ! cur) - 1"
    and "p_processes (srtf_tick st best) =
           (p_processes st)[cur := (p_processes st ! cur)
              \<lparr>remainingTime := remainingTime (p_processes st ! cur) - 1\<rparr>]"
    and "p_currentTime (srtf_tick st best) = p_currentTime st + 1"
  using assms by (auto simp: srtf_tick_def Let_def split: if_splits)

lemma srtf_body_inv:
  assumes inv: "srtf_inv st"
  shows "srtf_inv (srtf_body st)"
proof (cases "eligible st")
  case Nil
  have "p_running st = None"
  proof (cases "p_running st")
    case None
    then show ?thesis .
  next
    case (Some a)
    obtain r since where "a = (r, since)" by (cases a)
    with inv Some have "r \<in> set (eligible st)"
      by (simp add: srtf_inv_def eligible_iff)
    with Nil show ?thesis by simp
  qed
  with Nil show ?thesis
    by (simp add: srtf_body_def srtf_inv_def)
next
  case (Cons first rest)
  let ?ps = "p_processes st"
  let ?best = "shortestRemaining ?ps first rest"
  let ?st' = "srtf_tick st ?best"
  obtain cur since where ch: "srtf_choice st ?best = (cur, since)"
    by (cases "srtf_choice st ?best")
  from srtf_choice_least [OF inv Cons] ch
  have cur: "cur \<in> set (eligible st)"
    and least: "\<forall>i \<in> set (eligible st). remainingTime (?ps ! cur) \<le> remainingTime (?ps ! i)"
    by simp_all
  have body: "srtf_body st = ?st'"
    by (simp add: srtf_body_def Cons)
  show ?thesis
  proof (cases "p_running ?st'")
    case None
    then show ?thesis by (simp add: body srtf_inv_def)
  next
    case (Some a)
    obtain c s where a: "a = (c, s)" by (cases a)
    from Some a have run: "p_running ?st' = Some (c, s)" by simp
    note f = srtf_tick_running [OF ch run]
    let ?ran = "(?ps ! cur)\<lparr>remainingTime := remainingTime (?ps ! cur) - 1\<rparr>"
    from cur have c1: "cur < length ?ps" "arrivalTime (?ps ! cur) \<le> p_currentTime st"
      by (simp_all add: eligible_iff)
    have others: "remainingTime (?ps ! cur) - 1 \<le> remainingTime (?ps[cur := ?ran] ! i)"
      if i: "i < length ?ps" "arrivalTime (?ps[cur := ?ran] ! i) < p_currentTime st + 1"
        "0 < remainingTime (?ps[cur := ?ran] ! i)" for i
    proof (cases "i = cur")
      case True
      with c1 show ?thesis by simp
    next
      case False
      with i have "i \<in> set (eligible st)"
        by (simp add: eligible_iff)
      with least have "remainingTime (?ps ! cur) \<le> remainingTime (?ps ! i)" by blast
      with False show ?thesis by simp
    qed
    show ?thesis
      unfolding body srtf_inv_def run f
      using c1 f(2) others by simp
  qed
qed

lemma srtf_tick_sel:
  assumes "srtf_choice st best = (cur, start)"
  shows "p_executionOrder (srtf_tick st best) =
           p_executionOrder st @ preempted st best @
           (if remainingTime (p_processes st ! cur) - 1 \<le> 0
            then [\<lparr>processId = id' (p_processes st ! cur), startTime = start,
                   endTime = p_currentTime st + 1\<rparr>]
            else [])"
    and "p_running (srtf_tick st best) =
           (if remainingTime (p_processes st ! cur) - 1 \<le> 0 then None else Some (cur, start))"
    and "p_processes (srtf_tick st best) =
           (p_processes st)[cur := (p_processes st ! cur)
              \<lparr>remainingTime := remainingTime (p_processes st ! cur) - 1\<rparr>]"
    and "p_currentTime (srtf_tick st best) = p_currentTime st + 1"
    and "map (\<lambda>m. (id' m, completionTime m)) (p_processMetrics (srtf_tick st best)) =
           map (\<lambda>m. (id' m, completionTime m)) (p_processMetrics st) @
           (if remainingTime (p_processes st ! cur) - 1 \<le> 0
            then [(id' (p_processes st ! cur), p_currentTime st + 1)] else [])"
  using assms by (simp_all add: srtf_tick_def Let_def)

text \<open>
  C7, on the model of section 4.4. Of the running process it holds at every tick that no
  process that arrived earlier and is unfinished has less remaining time. At a tick with a
  running process, that process is preempted exactly when a process that arrives at this very
  tick has strictly less remaining time. Then the timeline gains the slice of the running
  process, from its start to this tick, and the eligible process of least remaining time, which
  is one of those that arrive at this tick, runs from this tick on: it is the running process
  of the next tick, with this tick as the start of its slice, or, when this tick was its last,
  the timeline also gains its slice, from this tick to the next. Otherwise, equal remaining
  times included, no slice ends by preemption and the running process runs this tick: it is the
  running process of the next tick, with the same start of slice, or, when this tick was its
  last, the timeline gains its slice, from that start to the next tick. On P1(0, 4), P2(1, 3)
  there is no preemption at time 1, P1 completes at 4 and P2 runs in [4,7). On P1(0, 4),
  P2(1, 1) the timeline is P1[0,1), P2[1,2), P1[2,5), and on P1(0, 4), P2(1, 3), P3(2, 1) it is
  P1[0,2), P3[2,3), P1[3,5), P2[5,8).
\<close>

theorem srtf_preempts_for_strictly_shorter_arrival:
  "srtf_inv (srtf_init ps) \<and>
   (srtf_inv st \<longrightarrow> srtf_inv (srtf_body st)) \<and>
   (srtf_inv st \<and> p_running st = Some (r, since) \<and> eligible st = first # rest \<longrightarrow>
      (remainingTime (p_processes st ! shortestRemaining (p_processes st) first rest)
          < remainingTime (p_processes st ! r)
        \<longleftrightarrow> (\<exists>i < length (p_processes st).
               arrivalTime (p_processes st ! i) = p_currentTime st \<and>
               0 < remainingTime (p_processes st ! i) \<and>
               remainingTime (p_processes st ! i) < remainingTime (p_processes st ! r))) \<and>
      (remainingTime (p_processes st ! shortestRemaining (p_processes st) first rest)
          < remainingTime (p_processes st ! r) \<longrightarrow>
         arrivalTime (p_processes st ! shortestRemaining (p_processes st) first rest)
           = p_currentTime st \<and>
         p_executionOrder (srtf_body st) =
           p_executionOrder st @
           [\<lparr>processId = id' (p_processes st ! r), startTime = since,
             endTime = p_currentTime st\<rparr>] @
           (if remainingTime (p_processes st ! shortestRemaining (p_processes st) first rest) - 1
                 \<le> 0
            then [\<lparr>processId =
                     id' (p_processes st ! shortestRemaining (p_processes st) first rest),
                   startTime = p_currentTime st, endTime = p_currentTime st + 1\<rparr>]
            else []) \<and>
         p_running (srtf_body st) =
           (if remainingTime (p_processes st ! shortestRemaining (p_processes st) first rest) - 1
                 \<le> 0
            then None
            else Some (shortestRemaining (p_processes st) first rest, p_currentTime st)) \<and>
         remainingTime (p_processes (srtf_body st) ! r) = remainingTime (p_processes st ! r)) \<and>
      (\<not> remainingTime (p_processes st ! shortestRemaining (p_processes st) first rest)
          < remainingTime (p_processes st ! r) \<longrightarrow>
         p_executionOrder (srtf_body st) =
           p_executionOrder st @
           (if remainingTime (p_processes st ! r) - 1 \<le> 0
            then [\<lparr>processId = id' (p_processes st ! r), startTime = since,
                   endTime = p_currentTime st + 1\<rparr>]
            else []) \<and>
         p_running (srtf_body st) =
           (if remainingTime (p_processes st ! r) - 1 \<le> 0 then None else Some (r, since)) \<and>
         remainingTime (p_processes (srtf_body st) ! r) = remainingTime (p_processes st ! r) - 1) \<and>
      p_currentTime (srtf_body st) = p_currentTime st + 1) \<and>
   map_option executionOrder (scheduleSRTF example2) =
     Some [\<lparr>processId = ''P1'', startTime = 0, endTime = 4\<rparr>,
           \<lparr>processId = ''P2'', startTime = 4, endTime = 7\<rparr>] \<and>
   map_option (\<lambda>r. map (\<lambda>m. (id' m, completionTime m)) (processMetrics r))
       (scheduleSRTF example2) =
     Some [(''P1'', 4), (''P2'', 7)] \<and>
   map_option executionOrder (scheduleSRTF short_arrival) =
     Some [\<lparr>processId = ''P1'', startTime = 0, endTime = 1\<rparr>,
           \<lparr>processId = ''P2'', startTime = 1, endTime = 2\<rparr>,
           \<lparr>processId = ''P1'', startTime = 2, endTime = 5\<rparr>] \<and>
   map_option (\<lambda>r. map (\<lambda>m. (id' m, completionTime m)) (processMetrics r))
       (scheduleSRTF short_arrival) =
     Some [(''P2'', 2), (''P1'', 5)] \<and>
   map_option executionOrder (scheduleSRTF example3) =
     Some [\<lparr>processId = ''P1'', startTime = 0, endTime = 2\<rparr>,
           \<lparr>processId = ''P3'', startTime = 2, endTime = 3\<rparr>,
           \<lparr>processId = ''P1'', startTime = 3, endTime = 5\<rparr>,
           \<lparr>processId = ''P2'', startTime = 5, endTime = 8\<rparr>]"
proof -
  let ?ps = "p_processes st"
  let ?best = "shortestRemaining ?ps first rest"
  let ?t = "p_currentTime st"
  let ?P = "(remainingTime (?ps ! ?best) < remainingTime (?ps ! r)
        \<longleftrightarrow> (\<exists>i < length ?ps. arrivalTime (?ps ! i) = ?t \<and> 0 < remainingTime (?ps ! i) \<and>
               remainingTime (?ps ! i) < remainingTime (?ps ! r))) \<and>
      (remainingTime (?ps ! ?best) < remainingTime (?ps ! r) \<longrightarrow>
         arrivalTime (?ps ! ?best) = ?t \<and>
         p_executionOrder (srtf_body st) =
           p_executionOrder st @
           [\<lparr>processId = id' (?ps ! r), startTime = since, endTime = ?t\<rparr>] @
           (if remainingTime (?ps ! ?best) - 1 \<le> 0
            then [\<lparr>processId = id' (?ps ! ?best), startTime = ?t, endTime = ?t + 1\<rparr>]
            else []) \<and>
         p_running (srtf_body st) =
           (if remainingTime (?ps ! ?best) - 1 \<le> 0 then None else Some (?best, ?t)) \<and>
         remainingTime (p_processes (srtf_body st) ! r) = remainingTime (?ps ! r)) \<and>
      (\<not> remainingTime (?ps ! ?best) < remainingTime (?ps ! r) \<longrightarrow>
         p_executionOrder (srtf_body st) =
           p_executionOrder st @
           (if remainingTime (?ps ! r) - 1 \<le> 0
            then [\<lparr>processId = id' (?ps ! r), startTime = since, endTime = ?t + 1\<rparr>]
            else []) \<and>
         p_running (srtf_body st) =
           (if remainingTime (?ps ! r) - 1 \<le> 0 then None else Some (r, since)) \<and>
         remainingTime (p_processes (srtf_body st) ! r) = remainingTime (?ps ! r) - 1) \<and>
      p_currentTime (srtf_body st) = ?t + 1"
  have step: ?P
    if inv: "srtf_inv st" and run: "p_running st = Some (r, since)"
      and el: "eligible st = first # rest"
  proof -
    from shortestRemaining_least [of ?ps first rest]
    have b: "?best \<in> set (eligible st)"
      and least: "\<forall>i \<in> set (eligible st). remainingTime (?ps ! ?best) \<le> remainingTime (?ps ! i)"
      unfolding el by simp_all
    from b have b': "?best < length ?ps" "arrivalTime (?ps ! ?best) \<le> ?t"
      "0 < remainingTime (?ps ! ?best)"
      by (simp_all add: eligible_iff)
    from inv run have r': "r < length ?ps"
      and earlier: "\<forall>i < length ?ps. arrivalTime (?ps ! i) < ?t \<and>
        0 < remainingTime (?ps ! i) \<longrightarrow> remainingTime (?ps ! r) \<le> remainingTime (?ps ! i)"
      by (simp_all add: srtf_inv_def)
    have now: "arrivalTime (?ps ! ?best) = ?t"
      if "remainingTime (?ps ! ?best) < remainingTime (?ps ! r)"
    proof (rule ccontr)
      assume "arrivalTime (?ps ! ?best) \<noteq> ?t"
      with b' have "arrivalTime (?ps ! ?best) < ?t" by simp
      with earlier b' have "remainingTime (?ps ! r) \<le> remainingTime (?ps ! ?best)" by blast
      with that show False by simp
    qed
    have iff: "remainingTime (?ps ! ?best) < remainingTime (?ps ! r)
        \<longleftrightarrow> (\<exists>i < length ?ps. arrivalTime (?ps ! i) = ?t \<and> 0 < remainingTime (?ps ! i) \<and>
               remainingTime (?ps ! i) < remainingTime (?ps ! r))"
    proof
      assume lt: "remainingTime (?ps ! ?best) < remainingTime (?ps ! r)"
      with now b' show "\<exists>i < length ?ps. arrivalTime (?ps ! i) = ?t \<and>
          0 < remainingTime (?ps ! i) \<and> remainingTime (?ps ! i) < remainingTime (?ps ! r)"
        by blast
    next
      assume "\<exists>i < length ?ps. arrivalTime (?ps ! i) = ?t \<and> 0 < remainingTime (?ps ! i) \<and>
          remainingTime (?ps ! i) < remainingTime (?ps ! r)"
      then obtain i where i: "i < length ?ps" "arrivalTime (?ps ! i) = ?t"
        "0 < remainingTime (?ps ! i)" "remainingTime (?ps ! i) < remainingTime (?ps ! r)"
        by blast
      then have "i \<in> set (eligible st)" by (simp add: eligible_iff)
      with least have "remainingTime (?ps ! ?best) \<le> remainingTime (?ps ! i)" by blast
      with i(4) show "remainingTime (?ps ! ?best) < remainingTime (?ps ! r)" by simp
    qed
    have body: "srtf_body st = srtf_tick st ?best"
      by (simp add: srtf_body_def el)
    have pre: "remainingTime (?ps ! ?best) < remainingTime (?ps ! r) \<longrightarrow>
         arrivalTime (?ps ! ?best) = ?t \<and>
         p_executionOrder (srtf_body st) =
           p_executionOrder st @
           [\<lparr>processId = id' (?ps ! r), startTime = since, endTime = ?t\<rparr>] @
           (if remainingTime (?ps ! ?best) - 1 \<le> 0
            then [\<lparr>processId = id' (?ps ! ?best), startTime = ?t, endTime = ?t + 1\<rparr>]
            else []) \<and>
         p_running (srtf_body st) =
           (if remainingTime (?ps ! ?best) - 1 \<le> 0 then None else Some (?best, ?t)) \<and>
         remainingTime (p_processes (srtf_body st) ! r) = remainingTime (?ps ! r)"
    proof
      assume lt: "remainingTime (?ps ! ?best) < remainingTime (?ps ! r)"
      then have ne: "?best \<noteq> r" by auto
      from lt run have ch: "srtf_choice st ?best = (?best, ?t)"
        and pr: "preempted st ?best =
          [\<lparr>processId = id' (?ps ! r), startTime = since, endTime = ?t\<rparr>]"
        by (simp_all add: srtf_choice_def preempted_def)
      note sel = srtf_tick_sel [OF ch]
      have "remainingTime (p_processes (srtf_body st) ! r) = remainingTime (?ps ! r)"
        unfolding body sel(3) using ne by simp
      with now [OF lt] show "arrivalTime (?ps ! ?best) = ?t \<and>
         p_executionOrder (srtf_body st) =
           p_executionOrder st @
           [\<lparr>processId = id' (?ps ! r), startTime = since, endTime = ?t\<rparr>] @
           (if remainingTime (?ps ! ?best) - 1 \<le> 0
            then [\<lparr>processId = id' (?ps ! ?best), startTime = ?t, endTime = ?t + 1\<rparr>]
            else []) \<and>
         p_running (srtf_body st) =
           (if remainingTime (?ps ! ?best) - 1 \<le> 0 then None else Some (?best, ?t)) \<and>
         remainingTime (p_processes (srtf_body st) ! r) = remainingTime (?ps ! r)"
        unfolding body sel(1,2) pr by simp
    qed
    have keep: "\<not> remainingTime (?ps ! ?best) < remainingTime (?ps ! r) \<longrightarrow>
         p_executionOrder (srtf_body st) =
           p_executionOrder st @
           (if remainingTime (?ps ! r) - 1 \<le> 0
            then [\<lparr>processId = id' (?ps ! r), startTime = since, endTime = ?t + 1\<rparr>]
            else []) \<and>
         p_running (srtf_body st) =
           (if remainingTime (?ps ! r) - 1 \<le> 0 then None else Some (r, since)) \<and>
         remainingTime (p_processes (srtf_body st) ! r) = remainingTime (?ps ! r) - 1"
    proof
      assume ge: "\<not> remainingTime (?ps ! ?best) < remainingTime (?ps ! r)"
      with run have ch: "srtf_choice st ?best = (r, since)"
        and pr: "preempted st ?best = []"
        by (simp_all add: srtf_choice_def preempted_def)
      note sel = srtf_tick_sel [OF ch]
      have "remainingTime (p_processes (srtf_body st) ! r) = remainingTime (?ps ! r) - 1"
        unfolding body sel(3) using r' by simp
      then show "p_executionOrder (srtf_body st) =
           p_executionOrder st @
           (if remainingTime (?ps ! r) - 1 \<le> 0
            then [\<lparr>processId = id' (?ps ! r), startTime = since, endTime = ?t + 1\<rparr>]
            else []) \<and>
         p_running (srtf_body st) =
           (if remainingTime (?ps ! r) - 1 \<le> 0 then None else Some (r, since)) \<and>
         remainingTime (p_processes (srtf_body st) ! r) = remainingTime (?ps ! r) - 1"
        unfolding body sel(1,2) pr by simp
    qed
    obtain cur start where ch: "srtf_choice st ?best = (cur, start)"
      by (cases "srtf_choice st ?best")
    have clock: "p_currentTime (srtf_body st) = ?t + 1"
      unfolding body by (rule srtf_tick_sel(4) [OF ch])
    show ?thesis
      by (intro conjI iff pre keep clock)
  qed
  have r: "scheduleSRTF example2 = Some (calculateAverages
      [\<lparr>processId = ''P1'', startTime = 0, endTime = 4\<rparr>,
       \<lparr>processId = ''P2'', startTime = 4, endTime = 7\<rparr>]
      [\<lparr>id' = ''P1'', arrivalTime = 0, burstTime = 4, priority = None,
        completionTime = 4, turnaroundTime = 4, waitingTime = 0\<rparr>,
       \<lparr>id' = ''P2'', arrivalTime = 1, burstTime = 3, priority = None,
        completionTime = 7, turnaroundTime = 6, waitingTime = 3\<rparr>])"
    by (simp add: scheduleSRTF_def srtf_loop.simps srtf_body_def srtf_tick_def srtf_choice_def
        preempted_def shortestRemaining_def eligible_def srtf_init_def example2_def
        withRemaining_def Let_def)
  have ex1: "map_option executionOrder (scheduleSRTF example2) =
     Some [\<lparr>processId = ''P1'', startTime = 0, endTime = 4\<rparr>,
           \<lparr>processId = ''P2'', startTime = 4, endTime = 7\<rparr>]"
    and ex2: "map_option (\<lambda>r. map (\<lambda>m. (id' m, completionTime m)) (processMetrics r))
       (scheduleSRTF example2) = Some [(''P1'', 4), (''P2'', 7)]"
    unfolding r by simp_all
  have ex3: "map_option executionOrder (scheduleSRTF short_arrival) =
     Some [\<lparr>processId = ''P1'', startTime = 0, endTime = 1\<rparr>,
           \<lparr>processId = ''P2'', startTime = 1, endTime = 2\<rparr>,
           \<lparr>processId = ''P1'', startTime = 2, endTime = 5\<rparr>]"
    and ex4: "map_option (\<lambda>r. map (\<lambda>m. (id' m, completionTime m)) (processMetrics r))
       (scheduleSRTF short_arrival) = Some [(''P2'', 2), (''P1'', 5)]"
    by (simp_all add: scheduleSRTF_def srtf_loop.simps srtf_body_def srtf_tick_def srtf_choice_def
        preempted_def shortestRemaining_def eligible_def srtf_init_def short_arrival_def
        withRemaining_def Let_def)
  have ex5: "map_option executionOrder (scheduleSRTF example3) =
     Some [\<lparr>processId = ''P1'', startTime = 0, endTime = 2\<rparr>,
           \<lparr>processId = ''P3'', startTime = 2, endTime = 3\<rparr>,
           \<lparr>processId = ''P1'', startTime = 3, endTime = 5\<rparr>,
           \<lparr>processId = ''P2'', startTime = 5, endTime = 8\<rparr>]"
    by (simp add: scheduleSRTF_def srtf_loop.simps srtf_body_def srtf_tick_def srtf_choice_def
        preempted_def shortestRemaining_def eligible_def srtf_init_def example3_def
        withRemaining_def Let_def)
  have inv: "srtf_inv st \<longrightarrow> srtf_inv (srtf_body st)"
    using srtf_body_inv by blast
  from step have step': "srtf_inv st \<and> p_running st = Some (r, since) \<and>
      eligible st = first # rest \<longrightarrow> ?P"
    by blast
  show ?thesis
    by (intro conjI srtf_init_inv inv step' ex1 ex2 ex3 ex4 ex5)
qed

theorem srtf_preempts_for_strictly_shorter_arrival_witness:
  "srtf_inv example2_at_1 \<and>
   eligible example2_at_1 = [0, 1] \<and>
   p_executionOrder (srtf_body example2_at_1) = [] \<and>
   p_running (srtf_body example2_at_1) = Some (0, 0) \<and>
   p_currentTime (srtf_body example2_at_1) = 2 \<and>
   srtf_inv (srtf_body example2_at_1) \<and>
   srtf_inv shorter_at_1 \<and>
   eligible shorter_at_1 = [0, 1, 2] \<and>
   shortestRemaining (p_processes shorter_at_1) 0 [1, 2] = 2 \<and>
   arrivalTime (p_processes shorter_at_1 ! 2) = p_currentTime shorter_at_1 \<and>
   p_executionOrder (srtf_body shorter_at_1) =
     [\<lparr>processId = ''P1'', startTime = 0, endTime = 1\<rparr>] \<and>
   p_running (srtf_body shorter_at_1) = Some (2, 1) \<and>
   remainingTime (p_processes (srtf_body shorter_at_1) ! 0) = 3"
proof -
  let ?b1 = "shortestRemaining (p_processes example2_at_1) 0 [1]"
  let ?b2 = "shortestRemaining (p_processes shorter_at_1) 0 [1, 2]"
  have i1: "srtf_inv example2_at_1"
    by (simp add: srtf_inv_def example2_at_1_def example2_def less_Suc_eq)
  have r1: "p_running example2_at_1 = Some (0, 0)"
    by (simp add: example2_at_1_def)
  have e1: "eligible example2_at_1 = [0, 1]"
    by (simp add: eligible_def example2_at_1_def example2_def upt_rec)
  have tie: "\<not> remainingTime (p_processes example2_at_1 ! ?b1)
      < remainingTime (p_processes example2_at_1 ! 0)"
    by (simp add: shortestRemaining_def example2_at_1_def example2_def)
  note t1 = srtf_preempts_for_strictly_shorter_arrival [of _ example2_at_1 0 0 0 "[1]"]
  from t1 i1 r1 e1 tie have k: "p_executionOrder (srtf_body example2_at_1) =
      p_executionOrder example2_at_1 @
      (if remainingTime (p_processes example2_at_1 ! 0) - 1 \<le> 0
       then [\<lparr>processId = id' (p_processes example2_at_1 ! 0), startTime = 0,
              endTime = p_currentTime example2_at_1 + 1\<rparr>]
       else [])"
    "p_running (srtf_body example2_at_1) =
      (if remainingTime (p_processes example2_at_1 ! 0) - 1 \<le> 0 then None else Some (0, 0))"
    "p_currentTime (srtf_body example2_at_1) = p_currentTime example2_at_1 + 1"
    by blast+
  have k1: "p_executionOrder (srtf_body example2_at_1) = []"
    unfolding k(1) by (simp add: example2_at_1_def example2_def)
  have k2: "p_running (srtf_body example2_at_1) = Some (0, 0)"
    unfolding k(2) by (simp add: example2_at_1_def example2_def)
  have k3: "p_currentTime (srtf_body example2_at_1) = 2"
    unfolding k(3) by (simp add: example2_at_1_def)
  from t1 i1 have n1: "srtf_inv (srtf_body example2_at_1)"
    by blast
  have i2: "srtf_inv shorter_at_1"
    by (simp add: srtf_inv_def shorter_at_1_def example2_def less_Suc_eq)
  have r2: "p_running shorter_at_1 = Some (0, 0)"
    by (simp add: shorter_at_1_def)
  have e2: "eligible shorter_at_1 = [0, 1, 2]"
    by (simp add: eligible_def shorter_at_1_def example2_def upt_rec)
  have b2: "?b2 = 2"
    by (simp add: shortestRemaining_def shorter_at_1_def example2_def)
  have lt: "remainingTime (p_processes shorter_at_1 ! ?b2)
      < remainingTime (p_processes shorter_at_1 ! 0)"
    unfolding b2 by (simp add: shorter_at_1_def example2_def)
  note t2 = srtf_preempts_for_strictly_shorter_arrival [of _ shorter_at_1 0 0 0 "[1, 2]"]
  from t2 i2 r2 e2 lt have p: "arrivalTime (p_processes shorter_at_1 ! ?b2) = p_currentTime shorter_at_1"
    "p_executionOrder (srtf_body shorter_at_1) =
      p_executionOrder shorter_at_1 @
      [\<lparr>processId = id' (p_processes shorter_at_1 ! 0), startTime = 0,
        endTime = p_currentTime shorter_at_1\<rparr>] @
      (if remainingTime (p_processes shorter_at_1 ! ?b2) - 1 \<le> 0
       then [\<lparr>processId = id' (p_processes shorter_at_1 ! ?b2),
              startTime = p_currentTime shorter_at_1, endTime = p_currentTime shorter_at_1 + 1\<rparr>]
       else [])"
    "p_running (srtf_body shorter_at_1) =
      (if remainingTime (p_processes shorter_at_1 ! ?b2) - 1 \<le> 0 then None
       else Some (?b2, p_currentTime shorter_at_1))"
    "remainingTime (p_processes (srtf_body shorter_at_1) ! 0) =
      remainingTime (p_processes shorter_at_1 ! 0)"
    by blast+
  have p1: "arrivalTime (p_processes shorter_at_1 ! 2) = p_currentTime shorter_at_1"
    using p(1) unfolding b2 .
  have p2: "p_executionOrder (srtf_body shorter_at_1) =
      [\<lparr>processId = ''P1'', startTime = 0, endTime = 1\<rparr>]"
    unfolding p(2) b2 by (simp add: shorter_at_1_def example2_def)
  have p3: "p_running (srtf_body shorter_at_1) = Some (2, 1)"
    unfolding p(3) b2 by (simp add: shorter_at_1_def)
  have p4: "remainingTime (p_processes (srtf_body shorter_at_1) ! 0) = 3"
    unfolding p(4) by (simp add: shorter_at_1_def)
  show ?thesis
    by (intro conjI i1 e1 k1 k2 k3 n1 i2 e2 b2 p1 p2 p3 p4)
qed

end
